theory Spec2Isabelle
  imports Main "HOL-Library.Sublist"
begin

section \<open>Python string primitives used by the sources\<close>

text \<open>
  A Python \<open>str\<close> is modelled as a \<open>string\<close> whose characters are the code points
  0 to 255. The functions below follow CPython on that range: \<open>str.isspace\<close>,
  \<open>str.split()\<close>, \<open>str.split(maxsplit=1)\<close>, \<open>str.strip()\<close>, \<open>str.lower()\<close>,
  \<open>str.find\<close>, the operator \<open>in\<close> on strings, \<open>str.isdigit\<close>, \<open>str.endswith\<close>,
  \<open>str.replace(c, "")\<close>, \<open>str.split(c)[0]\<close> and \<open>int(str)\<close>.
\<close>

datatype py_error = AttributeError | IndexError | TypeError | ValueError

definition code_in :: "char \<Rightarrow> nat \<Rightarrow> nat \<Rightarrow> bool" where
  "code_in c lo hi = (lo \<le> (of_char c :: nat) \<and> (of_char c :: nat) \<le> hi)"

definition py_isspace :: "char \<Rightarrow> bool" where
  "py_isspace c =
     (code_in c 9 13 \<or> code_in c 28 32 \<or> code_in c 133 133 \<or> code_in c 160 160)"

text \<open>\<open>s.split()\<close>: the maximal runs of non-whitespace characters, in order.\<close>

fun py_split_acc :: "string \<Rightarrow> string \<Rightarrow> string list" where
  "py_split_acc w [] = (if w = [] then [] else [w])"
| "py_split_acc w (c # cs) =
     (if py_isspace c then (if w = [] then py_split_acc [] cs else w # py_split_acc [] cs)
      else py_split_acc (w @ [c]) cs)"

definition py_split :: "string \<Rightarrow> string list" where
  "py_split s = py_split_acc [] s"

text \<open>
  \<open>s.split(maxsplit=1)\<close>: the first token, then the rest of the text from its
  first non-whitespace character to the end, when there is one.
\<close>

definition py_split_max1 :: "string \<Rightarrow> string list" where
  "py_split_max1 s =
     (let body = dropWhile py_isspace s in
      if body = [] then []
      else let tok = takeWhile (\<lambda>c. \<not> py_isspace c) body;
               rest = dropWhile py_isspace (dropWhile (\<lambda>c. \<not> py_isspace c) body)
           in if rest = [] then [tok] else [tok, rest])"

definition py_strip :: "string \<Rightarrow> string" where
  "py_strip s = rev (dropWhile py_isspace (rev (dropWhile py_isspace s)))"

definition py_lower_char :: "char \<Rightarrow> char" where
  "py_lower_char c =
     (if code_in c 65 90 \<or> (code_in c 192 222 \<and> \<not> code_in c 215 215)
      then char_of ((of_char c :: nat) + 32) else c)"

definition py_lower :: "string \<Rightarrow> string" where
  "py_lower s = map py_lower_char s"

fun starts_with :: "string \<Rightarrow> string \<Rightarrow> bool" where
  "starts_with s [] = True"
| "starts_with [] (p # ps) = False"
| "starts_with (c # cs) (p # ps) = (c = p \<and> starts_with cs ps)"

text \<open>\<open>sub in s\<close>.\<close>

fun py_contains :: "string \<Rightarrow> string \<Rightarrow> bool" where
  "py_contains sub [] = (sub = [])"
| "py_contains sub (c # cs) = (starts_with (c # cs) sub \<or> py_contains sub cs)"

text \<open>\<open>s.find(sub)\<close>: the least index where \<open>sub\<close> starts, or -1.\<close>

fun py_find :: "string \<Rightarrow> string \<Rightarrow> int" where
  "py_find [] sub = (if sub = [] then 0 else - 1)"
| "py_find (c # cs) sub =
     (if starts_with (c # cs) sub then 0
      else let r = py_find cs sub in if r < 0 then - 1 else r + 1)"

text \<open>\<open>s[i:]\<close>, a negative \<open>i\<close> counting from the end.\<close>

definition py_slice_from :: "string \<Rightarrow> int \<Rightarrow> string" where
  "py_slice_from s i =
     (if i < 0 then drop (nat (int (length s) + i)) s else drop (nat i) s)"

definition py_endswith :: "string \<Rightarrow> char \<Rightarrow> bool" where
  "py_endswith s c = (s \<noteq> [] \<and> last s = c)"

definition py_remove :: "char \<Rightarrow> string \<Rightarrow> string" where
  "py_remove c s = filter (\<lambda>x. x \<noteq> c) s"

definition py_isdigit_char :: "char \<Rightarrow> bool" where
  "py_isdigit_char c =
     (code_in c 48 57 \<or> code_in c 178 179 \<or> code_in c 185 185)"

definition py_isdigit :: "string \<Rightarrow> bool" where
  "py_isdigit s = (s \<noteq> [] \<and> list_all py_isdigit_char s)"

text \<open>
  \<open>int(s)\<close> in base 10: surrounding whitespace is dropped, one sign is allowed, and
  the digits \<open>0\<close> to \<open>9\<close> may be separated by single underscores. Anything else is
  a \<open>ValueError\<close>, here \<open>None\<close>.
\<close>

definition is_dec :: "char \<Rightarrow> bool" where
  "is_dec c = code_in c 48 57"

definition dec_val :: "char \<Rightarrow> nat" where
  "dec_val c = (of_char c :: nat) - 48"

fun py_digits :: "nat \<Rightarrow> bool \<Rightarrow> string \<Rightarrow> nat option" where
  "py_digits acc after_digit [] = (if after_digit then Some acc else None)"
| "py_digits acc after_digit (c # cs) =
     (if is_dec c then py_digits (10 * acc + dec_val c) True cs
      else if c = CHR ''_'' \<and> after_digit \<and> cs \<noteq> [] \<and> is_dec (hd cs)
      then py_digits acc False cs
      else None)"

definition py_int :: "string \<Rightarrow> int option" where
  "py_int s =
     (case py_strip s of
        [] \<Rightarrow> None
      | c # cs \<Rightarrow>
          if c = CHR ''-'' then map_option (\<lambda>n. - int n) (py_digits 0 False cs)
          else if c = CHR ''+'' then map_option int (py_digits 0 False cs)
          else map_option int (py_digits 0 False (c # cs)))"

section \<open>The fallback download: \<open>DFhandler.gen_df_gspread\<close> and \<open>gen_df\<close>\<close>

text \<open>
  The spreadsheet services are outside the program. One call either returns a grid or
  raises an exception whose text \<open>str(e)\<close> the handler inspects. The structured API
  is a function from the number of calls made so far to the outcome of the next one.
  The handler's effects are recorded as a trace: each \<open>open_by_key\<close> call and each
  \<open>time.sleep\<close> with its argument.
\<close>

datatype 'g outcome = Fetched 'g | Raised string

datatype event = OpenByKey | Sleep nat

definition max_retries :: nat where
  "max_retries = 3"

function gen_df_gspread_loop ::
  "(nat \<Rightarrow> 'g outcome) \<Rightarrow> nat \<Rightarrow> nat \<Rightarrow> event list \<Rightarrow> 'g option \<times> event list" where
  "gen_df_gspread_loop api retries calls tr =
     (if retries < max_retries then
        (case api calls of
           Fetched g \<Rightarrow> (Some g, tr @ [OpenByKey])
         | Raised e \<Rightarrow>
             if py_contains ''Quota exceeded'' e then
               gen_df_gspread_loop api (retries + 1) (calls + 1) (tr @ [OpenByKey, Sleep 65])
             else if py_contains ''This operation is not supported'' e then
               (None, tr @ [OpenByKey])
             else if retries + 1 < max_retries then
               gen_df_gspread_loop api (retries + 1) (calls + 1) (tr @ [OpenByKey, Sleep 5])
             else (None, tr @ [OpenByKey]))
      else (None, tr))"
  by pat_completeness auto
termination
  by (relation "measure (\<lambda>(api, retries, calls, tr). max_retries - retries)") auto

declare gen_df_gspread_loop.simps [simp del]

definition gen_df_gspread :: "(nat \<Rightarrow> 'g outcome) \<Rightarrow> 'g option \<times> event list" where
  "gen_df_gspread api = gen_df_gspread_loop api 0 0 []"

text \<open>
  \<open>gen_df\<close>: the direct CSV export first; the API path only when that raised.
\<close>

definition gen_df :: "'g outcome \<Rightarrow> (nat \<Rightarrow> 'g outcome) \<Rightarrow> 'g option \<times> event list" where
  "gen_df csv api =
     (case csv of Fetched g \<Rightarrow> (Some g, []) | Raised e \<Rightarrow> gen_df_gspread api)"

text \<open>The two tests the handler makes on the text of an exception, in its order.\<close>

definition quota_exceeded :: "string \<Rightarrow> bool" where
  "quota_exceeded e = py_contains ''Quota exceeded'' e"

definition not_supported :: "string \<Rightarrow> bool" where
  "not_supported e =
     (\<not> py_contains ''Quota exceeded'' e \<and> py_contains ''This operation is not supported'' e)"

definition attempts :: "event list \<Rightarrow> nat" where
  "attempts tr = length (filter (\<lambda>ev. ev = OpenByKey) tr)"

section \<open>\<open>models.py\<close>: \<open>Author\<close>\<close>

record author =
  name :: string
  flair :: int
  author_flair_text :: "string option"

text \<open>
  The body of the \<open>try\<close> block of \<open>Author.__post_init__\<close>. Indexing a list out of
  range raises \<open>IndexError\<close>, and \<open>int\<close> of a text that is no integer literal
  raises \<open>ValueError\<close>.
\<close>

definition flair_parse :: "string \<Rightarrow> py_error + int" where
  "flair_parse flair_text =
     (case py_split_max1 flair_text of
        [] \<Rightarrow> Inl IndexError
      | p0 # ps \<Rightarrow>
          if py_isdigit p0 then
            (case py_int p0 of None \<Rightarrow> Inl ValueError | Some n \<Rightarrow> Inr n)
          else
            (case ps of
               [] \<Rightarrow> Inl IndexError
             | p1 # _ \<Rightarrow>
                 (case py_split p1 of
                    _ # t # _ \<Rightarrow>
                      (case py_int t of None \<Rightarrow> Inl ValueError | Some n \<Rightarrow> Inr n)
                  | _ \<Rightarrow> Inl IndexError)))"

text \<open>
  \<open>__post_init__\<close>: an absent or empty flair text gives 0, and so does either
  exception, which the \<open>except\<close> clause catches.
\<close>

definition post_init_flair :: "string option \<Rightarrow> int" where
  "post_init_flair ft =
     (case ft of
        None \<Rightarrow> 0
      | Some t \<Rightarrow>
          if t = [] then 0
          else (case flair_parse t of Inl e \<Rightarrow> 0 | Inr n \<Rightarrow> n))"

text \<open>
  \<open>Author(name=..., author_flair_text=...)\<close>: the struct is built and
  \<open>__post_init__\<close> then assigns \<open>flair\<close>.
\<close>

definition Author :: "string \<Rightarrow> string option \<Rightarrow> author" where
  "Author nm ft = \<lparr>name = nm, flair = post_init_flair ft, author_flair_text = ft\<rparr>"

section \<open>\<open>sheets.py\<close>: finding and cleaning the shared URL\<close>

definition BASE_URL :: string where
  "BASE_URL = ''https://docs.google.com/''"

text \<open>\<open>s.split(c)[0]\<close>: the text before the first \<open>c\<close>, all of \<open>s\<close> when there is none.\<close>

definition py_split_first :: "char \<Rightarrow> string \<Rightarrow> string" where
  "py_split_first c s = takeWhile (\<lambda>x. x \<noteq> c) s"

text \<open>
  \<open>clean_url\<close>. The first line indexes the token list with \<open>[0]\<close>, which raises
  \<open>IndexError\<close> when the slice holds no token. The backslash is \<open>CHR 0x5C\<close>.
\<close>

definition clean_url :: "string \<Rightarrow> py_error + string" where
  "clean_url comment =
     (case py_split (py_slice_from comment (py_find comment BASE_URL)) of
        [] \<Rightarrow> Inl IndexError
      | ss_url # _ \<Rightarrow>
          let u1 = (if CHR '']'' \<in> set ss_url then py_split_first CHR '']'' ss_url else ss_url);
              u2 = (if py_endswith u1 CHR ''.'' then butlast u1 else u1);
              u3 = (if CHR 0x5C \<in> set u2
                    then py_remove (CHR 0x5C) (py_remove CHR '')'' u2) else u2);
              u4 = (if CHR '')'' \<in> set u3 then py_remove CHR '')'' u3 else u3)
          in Inr u4)"

text \<open>\<open>clean_url(clean_url(comment))\<close>, an exception of the first call ending the evaluation.\<close>

definition clean_url_twice :: "string \<Rightarrow> py_error + string" where
  "clean_url_twice comment =
     (case clean_url comment of Inl e \<Rightarrow> Inl e | Inr u \<Rightarrow> clean_url u)"

text \<open>The second step of \<open>clean_url\<close> on its own: one period at the end is dropped.\<close>

definition strip_dot :: "string \<Rightarrow> string" where
  "strip_dot u = (if py_endswith u CHR ''.'' then butlast u else u)"

section \<open>\<open>transformations.py\<close>: header detection and header mapping\<close>

text \<open>
  \<open>mapping_keys\<close> is \<open>list(Spreadsheet.__struct_fields__)\<close>, the field names of the
  struct \<open>Spreadsheet\<close> of \<open>models.py\<close> in their order of declaration.
\<close>

definition mapping_keys :: "string list" where
  "mapping_keys =
     [''price'', ''manufacturer'', ''mold'', ''plastic'', ''color'', ''condition'', ''ink'',
      ''picture'', ''price_shipped'', ''stamp'', ''weight'', ''status'', ''notes'',
      ''weight_scaled'', ''sheet_id'', ''sheet_url'']"

definition mappings_list :: "string list list" where
  "mappings_list =
     [ [''price'', ''bin'', ''buy it now'', ''amount'', ''cost''],
      [''manuf'', ''company'', ''brand'', ''mfg''],
      [''mold'', ''mold name'', ''model'', ''disc'', ''name''],
      [''plastic''],
      [''color'', ''colour''],
      [''condition'', ''cond.'', ''rating''],
      [''ink'', ''marked''],
      [''image'', ''photo'', ''pic''],
      [''shipp''],
      [''stamp''],
      [''weight'', ''grams''],
      [''status''],
      [''note'', ''comment'', ''details''],
      [''scale'']]"

text \<open>
  \<open>dict(zip(mapping_keys, mappings_list))\<close>: the keys are distinct, so the dictionary is
  the zipped list in its order, which is the order \<open>mappings.items()\<close> iterates in.
\<close>

definition mappings :: "(string \<times> string list) list" where
  "mappings = zip mapping_keys mappings_list"

text \<open>
  A data frame is its column labels and its rows, row \<open>i\<close> of the list being the row
  with index \<open>i\<close>. A cell is a text, a missing value (\<open>None\<close> or NaN), or a value of
  another type, which is no text and equals no text.
\<close>

datatype cell = CStr string | CNum int | CNone

record dataframe =
  columns :: "string list"
  rows :: "cell list list"

definition df_lower_strip :: "dataframe \<Rightarrow> string list" where
  "df_lower_strip df = map (\<lambda>c. py_strip (py_lower c)) (columns df)"

text \<open>
  \<open>header_match_count\<close>: the dictionary comprehension has one entry per distinct
  element of \<open>row\<close>, whose value is the element's count in \<open>mapping_keys\<close>.
\<close>

definition header_match_count :: "string list \<Rightarrow> nat" where
  "header_match_count row = sum_list (map (count_list mapping_keys) (remdups row))"

text \<open>\<open>dataframe.fillna('', inplace=True)\<close>.\<close>

definition fillna :: "dataframe \<Rightarrow> dataframe" where
  "fillna df = df\<lparr>rows := map (map (\<lambda>v. if v = CNone then CStr [] else v)) (rows df)\<rparr>"

definition lower_strip :: "cell \<Rightarrow> cell" where
  "lower_strip x = (case x of CStr s \<Rightarrow> CStr (py_strip (py_lower s)) | _ \<Rightarrow> x)"

text \<open>The test \<open>search_rows_for_header\<close> makes on the values of one row.\<close>

definition row_has_header :: "cell list \<Rightarrow> bool" where
  "row_has_header vals =
     ((\<not> list_all (\<lambda>v. v = CNone) vals \<or> vals \<noteq> []) \<and>
      (let vs = map lower_strip (filter (\<lambda>x. x \<noteq> CNone) vals)
       in list_ex (\<lambda>header. CStr header \<in> set vs) mapping_keys))"

fun search_rows :: "nat \<Rightarrow> cell list list \<Rightarrow> nat option" where
  "search_rows i [] = None"
| "search_rows i (row # rest) =
     (if row_has_header row then Some i else search_rows (i + 1) rest)"

definition search_rows_for_header :: "dataframe \<Rightarrow> nat option" where
  "search_rows_for_header df = search_rows 0 (rows (fillna df))"

text \<open>
  \<open>list(map(lambda x: x.lower().strip(), df_cols))\<close> after the \<open>None\<close> values were
  filtered out: a cell that is no text has no method \<open>lower\<close>.
\<close>

fun lower_strip_all :: "cell list \<Rightarrow> py_error + string list" where
  "lower_strip_all [] = Inr []"
| "lower_strip_all (CStr s # xs) =
     (case lower_strip_all xs of Inl e \<Rightarrow> Inl e | Inr ys \<Rightarrow> Inr (py_strip (py_lower s) # ys))"
| "lower_strip_all (x # xs) = Inl AttributeError"

datatype loc = Column | Row nat

record header_result =
  loc :: loc
  col_values :: "string list"
  match_count :: nat
  found :: bool

text \<open>
  \<open>header_find\<close>. The row scan has filled the missing values of the data frame in
  place, so the row is read from the filled frame.
\<close>

definition header_find :: "dataframe \<Rightarrow> py_error + header_result option" where
  "header_find df =
     (let df_cols = df_lower_strip df; count = header_match_count df_cols in
      if count \<ge> 2 then
        Inr (Some \<lparr>loc = Column, col_values = df_cols, match_count = count, found = True\<rparr>)
      else
        (case search_rows_for_header df of
           Some i \<Rightarrow>
             if i < length (rows (fillna df)) then
               (case lower_strip_all (filter (\<lambda>x. x \<noteq> CNone) (rows (fillna df) ! i)) of
                  Inl e \<Rightarrow> Inl e
                | Inr cols \<Rightarrow>
                    if header_match_count cols > 2 then
                      Inr (Some \<lparr>loc = Row i, col_values = cols,
                                 match_count = header_match_count cols, found = True\<rparr>)
                    else Inr None)
             else Inl IndexError
         | None \<Rightarrow> Inr None))"

text \<open>
  \<open>map_headers\<close>, for one header: the keys appended to \<open>new_headers\<close> while the loop
  over \<open>mappings.items()\<close> runs, and the flag \<open>mapped\<close>. An exact match appends the
  key and leaves the loop over the keys; a synonym contained in the header appends the
  key and leaves only the loop over the synonyms of that key.
\<close>

fun map_header :: "string \<Rightarrow> (string \<times> string list) list \<Rightarrow> string list \<times> bool" where
  "map_header header [] = ([], False)"
| "map_header header ((key, possible_values) # rest) =
     (if py_lower header \<in> set possible_values then ([key], True)
      else if list_ex (\<lambda>possible_value. py_contains (py_lower possible_value) (py_lower header))
                possible_values
      then (key # fst (map_header header rest), True)
      else map_header header rest)"

definition map_headers :: "string list \<Rightarrow> (string \<times> string list) list \<Rightarrow> string list" where
  "map_headers headers ms =
     concat (map (\<lambda>header. case map_header header ms of
                               (keys, mapped) \<Rightarrow> if mapped then keys else keys @ [header])
                 headers)"

section \<open>\<open>sheets.py\<close>: the ingestion pipeline\<close>

text \<open>
  A submission as the forum client returns it, with the attributes the pipeline reads;
  \<open>post_author\<close> is the name of \<open>post.author\<close>, absent when the account was deleted,
  and \<open>post_comments\<close> holds the bodies of the comments in listing order.
\<close>

record submission =
  post_id :: string
  post_title :: string
  post_selftext :: string
  post_url :: string
  post_created_utc :: int
  post_shortlink :: string
  post_num_comments :: int
  post_score :: int
  post_author :: "string option"
  post_author_flair_text :: "string option"
  post_comments :: "string list"

text \<open>
  \<open>SheetPost\<close> of \<open>models.py\<close>. The times \<open>created\<close> and \<open>sheet_dl_date\<close> are naive
  local times, written as seconds on the local wall clock and ordered as \<open>datetime\<close>
  values are; \<open>sheet_raw\<close>, the JSON text of the downloaded frame, is the frame itself.
\<close>

record sheet_post =
  id_sheet_post :: string
  title :: string
  created :: int
  shortlink :: string
  num_comments :: int
  score :: int
  author :: "author option"
  sheet_id :: "string option"
  sheet_url :: "string option"
  sheet_dl_date :: "int option"
  sheet_raw :: "dataframe option"

text \<open>
  The cache of \<open>cache.py\<close>: the plain keys written by \<open>set\<close> and the hashes written by
  \<open>hset\<close>, each hash a dictionary of its own.
\<close>

record cache =
  kv :: "string \<rightharpoonup> sheet_post"
  hashes :: "string \<Rightarrow> (string \<rightharpoonup> sheet_post)"

definition cache_set :: "cache \<Rightarrow> string \<Rightarrow> sheet_post \<Rightarrow> cache" where
  "cache_set c key v = c\<lparr>kv := (kv c)(key \<mapsto> v)\<rparr>"

definition cache_exists :: "cache \<Rightarrow> string \<Rightarrow> bool" where
  "cache_exists c key = (kv c key \<noteq> None)"

definition hset :: "cache \<Rightarrow> string \<Rightarrow> string \<Rightarrow> sheet_post \<Rightarrow> cache" where
  "hset c h key v = c\<lparr>hashes := (hashes c)(h := (hashes c h)(key \<mapsto> v))\<rparr>"

definition hexists :: "cache \<Rightarrow> string \<Rightarrow> string \<Rightarrow> bool" where
  "hexists c h key = (hashes c h key \<noteq> None)"

text \<open>
  \<open>re.search(prefix + "([a-zA-Z0-9-_]+)", s)\<close> and its group 1: the leftmost place
  where the prefix is followed by a character of the class, and the longest run of
  such characters there.
\<close>

definition is_id_char :: "char \<Rightarrow> bool" where
  "is_id_char c =
     (code_in c 97 122 \<or> code_in c 65 90 \<or> code_in c 48 57 \<or> c = CHR ''-'' \<or> c = CHR ''_'')"

fun re_search_id :: "string \<Rightarrow> string \<Rightarrow> string option" where
  "re_search_id pre [] = None"
| "re_search_id pre (c # cs) =
     (if starts_with (c # cs) pre \<and> takeWhile is_id_char (drop (length pre) (c # cs)) \<noteq> []
      then Some (takeWhile is_id_char (drop (length pre) (c # cs)))
      else re_search_id pre cs)"

text \<open>
  \<open>gspread.utils.extract_id_from_url\<close> belongs to a library outside the repository; the
  functions below take it as the parameter \<open>ext\<close>, \<open>None\<close> standing for the exception
  \<open>NoValidUrlKeyFound\<close>. The library's function searches for \<open>/spreadsheets/d/\<close> and
  an id, then for \<open>key=\<close> and a run of characters other than \<open>&\<close> and \<open>#\<close>.
\<close>

fun re_search_key :: "string \<Rightarrow> string option" where
  "re_search_key [] = None"
| "re_search_key (c # cs) =
     (if starts_with (c # cs) ''key='' \<and>
         takeWhile (\<lambda>x. x \<noteq> CHR ''&'' \<and> x \<noteq> CHR ''#'') (drop 4 (c # cs)) \<noteq> []
      then Some (takeWhile (\<lambda>x. x \<noteq> CHR ''&'' \<and> x \<noteq> CHR ''#'') (drop 4 (c # cs)))
      else re_search_key cs)"

definition extract_id_from_url :: "string \<Rightarrow> string option" where
  "extract_id_from_url u =
     (case re_search_id ''/spreadsheets/d/'' u of
        Some k \<Rightarrow> Some k
      | None \<Rightarrow> re_search_key u)"

definition gen_doc_id :: "(string \<Rightarrow> string option) \<Rightarrow> string \<Rightarrow> string option" where
  "gen_doc_id ext sheet_url_arg =
     (case re_search_id ''/spreadsheets/d/e/'' sheet_url_arg of
        Some k \<Rightarrow> Some k
      | None \<Rightarrow>
          (case re_search_id ''/spreadsheets/u/0/d/'' sheet_url_arg of
             Some k \<Rightarrow> Some k
           | None \<Rightarrow> ext sheet_url_arg))"

fun find_in_comments :: "string list \<Rightarrow> py_error + string option" where
  "find_in_comments [] = Inr None"
| "find_in_comments (body # rest) =
     (if py_contains BASE_URL body then
        (case clean_url body of Inl e \<Rightarrow> Inl e | Inr u \<Rightarrow> Inr (Some u))
      else find_in_comments rest)"

definition find_sheet_url :: "submission \<Rightarrow> py_error + string option" where
  "find_sheet_url post =
     (if py_contains BASE_URL (post_title post) then
        (case clean_url (post_title post) of Inl e \<Rightarrow> Inl e | Inr u \<Rightarrow> Inr (Some u))
      else if post_selftext post \<noteq> [] \<and> py_contains BASE_URL (post_selftext post) then
        (case clean_url (post_selftext post) of Inl e \<Rightarrow> Inl e | Inr u \<Rightarrow> Inr (Some u))
      else if post_selftext post = [] \<and> py_contains BASE_URL (post_url post) then
        Inr (Some (post_url post))
      else find_in_comments (post_comments post))"

text \<open>
  The \<open>SheetPost\<close> both branches of \<open>parse_submissions\<close> build. Evaluating
  \<open>post.author.name\<close> raises \<open>AttributeError\<close> when \<open>post.author\<close> is \<open>None\<close>.
  \<open>datetime.fromtimestamp\<close> turns the UTC seconds of the submission into the local time
  of the machine; it depends on the time zone and its rules and is the parameter
  \<open>fts\<close>, of which nothing is assumed.
\<close>

definition make_sheet_post ::
  "(int \<Rightarrow> int) \<Rightarrow> submission \<Rightarrow> string option \<Rightarrow> string option
   \<Rightarrow> py_error + sheet_post" where
  "make_sheet_post fts post sid surl =
     (case post_author post of
        None \<Rightarrow> Inl AttributeError
      | Some nm \<Rightarrow>
          Inr \<lparr>id_sheet_post = post_id post, title = post_title post,
               created = fts (post_created_utc post), shortlink = post_shortlink post,
               num_comments = post_num_comments post, score = post_score post,
               author = Some (Author nm (post_author_flair_text post)),
               sheet_id = sid, sheet_url = surl,
               sheet_dl_date = None, sheet_raw = None\<rparr>)"

text \<open>
  \<open>parse_submissions\<close>: the loop over the submissions, with the cache and the list
  \<open>sheet_posts\<close> as state. An exception ends the loop; what was written to the cache before
  stays written.
\<close>

fun parse_submissions_loop ::
  "(int \<Rightarrow> int) \<Rightarrow> (string \<Rightarrow> string option) \<Rightarrow> submission list \<Rightarrow> cache \<Rightarrow> sheet_post list
   \<Rightarrow> (py_error + sheet_post list) \<times> cache" where
  "parse_submissions_loop fts ext [] c sheet_posts = (Inr sheet_posts, c)"
| "parse_submissions_loop fts ext (post # rest) c sheet_posts =
     (if cache_exists c (''post:'' @ post_id post) then
        parse_submissions_loop fts ext rest c sheet_posts
      else
        (case find_sheet_url post of
           Inl e \<Rightarrow> (Inl e, c)
         | Inr found_url \<Rightarrow>
             (case found_url of
                Some u \<Rightarrow>
                  if u \<noteq> [] then
                    (case make_sheet_post fts post (gen_doc_id ext u) (Some u) of
                       Inl e \<Rightarrow> (Inl e, c)
                     | Inr sp \<Rightarrow>
                         parse_submissions_loop fts ext rest
                           (cache_set c (''post:'' @ id_sheet_post sp) sp) (sheet_posts @ [sp]))
                  else
                    (case make_sheet_post fts post None None of
                       Inl e \<Rightarrow> (Inl e, c)
                     | Inr sp \<Rightarrow>
                         parse_submissions_loop fts ext rest
                           (cache_set c (''post:'' @ post_id post) sp) sheet_posts)
              | None \<Rightarrow>
                  (case make_sheet_post fts post None None of
                     Inl e \<Rightarrow> (Inl e, c)
                   | Inr sp \<Rightarrow>
                       parse_submissions_loop fts ext rest
                         (cache_set c (''post:'' @ post_id post) sp) sheet_posts))))"

definition parse_submissions ::
  "(int \<Rightarrow> int) \<Rightarrow> (string \<Rightarrow> string option) \<Rightarrow> submission list \<Rightarrow> cache
   \<Rightarrow> (py_error + sheet_post list) \<times> cache" where
  "parse_submissions fts ext submissions c = parse_submissions_loop fts ext submissions c []"

text \<open>
  \<open>unique_sheets\<close>. The warning of the \<open>else\<close> branch formats \<open>post.author.name\<close>, which
  raises \<open>AttributeError\<close> when the post has no author.
\<close>

fun unique_sheets_loop ::
  "sheet_post list \<Rightarrow> string set \<Rightarrow> sheet_post list \<Rightarrow> py_error + sheet_post list" where
  "unique_sheets_loop [] seen_sheet_ids unique_sheet_posts = Inr unique_sheet_posts"
| "unique_sheets_loop (post # rest) seen_sheet_ids unique_sheet_posts =
     (if sheet_id post \<noteq> None \<and> the (sheet_id post) \<notin> seen_sheet_ids then
        unique_sheets_loop rest (insert (the (sheet_id post)) seen_sheet_ids)
          (unique_sheet_posts @ [post])
      else if author post = None then Inl AttributeError
      else unique_sheets_loop rest seen_sheet_ids unique_sheet_posts)"

definition unique_sheets :: "sheet_post list \<Rightarrow> py_error + sheet_post list" where
  "unique_sheets sheet_posts = unique_sheets_loop sheet_posts {} []"

fun dedupe_submissions_loop ::
  "sheet_post list \<Rightarrow> string set \<Rightarrow> sheet_post list \<Rightarrow> sheet_post list" where
  "dedupe_submissions_loop [] seen_ids unique_submissions = unique_submissions"
| "dedupe_submissions_loop (post # rest) seen_ids unique_submissions =
     (if id_sheet_post post \<notin> seen_ids then
        dedupe_submissions_loop rest (insert (id_sheet_post post) seen_ids)
          (unique_submissions @ [post])
      else dedupe_submissions_loop rest seen_ids unique_submissions)"

definition dedupe_submissions :: "sheet_post list \<Rightarrow> sheet_post list" where
  "dedupe_submissions submissions = dedupe_submissions_loop submissions {} []"

text \<open>
  The services a run talks to: the answer of the CSV export and the answers of the
  successive calls of the API, as functions of the document id, the clock
  (\<open>datetime.now()\<close>), and the conversion \<open>datetime.fromtimestamp\<close> of the machine.
\<close>

record world =
  csv_export :: "string \<Rightarrow> dataframe outcome"
  api_calls :: "string \<Rightarrow> nat \<Rightarrow> dataframe outcome"
  now :: int
  fromtimestamp :: "int \<Rightarrow> int"

definition download_sheet :: "world \<Rightarrow> string \<Rightarrow> dataframe option" where
  "download_sheet w sid = fst (gen_df (csv_export w sid) (api_calls w sid))"

definition check_cache :: "cache \<Rightarrow> string \<Rightarrow> bool" where
  "check_cache c sid = hexists c ''sheets'' (''sheet:'' @ sid)"

text \<open>
  \<open>add_sheet_data\<close>, with the list of the document ids \<open>download_sheet\<close> was called for.
  A post without a document id is looked up as \<open>sheet:None\<close>, and building its download
  URL raises \<open>TypeError\<close>. The new \<open>SheetPost\<close> leaves \<open>num_comments\<close> and \<open>score\<close> at
  their defaults.
\<close>

fun add_sheet_data_loop ::
  "world \<Rightarrow> cache \<Rightarrow> sheet_post list \<Rightarrow> sheet_post list \<Rightarrow> string list
   \<Rightarrow> (py_error + sheet_post list) \<times> string list" where
  "add_sheet_data_loop w c [] items tried = (Inr items, tried)"
| "add_sheet_data_loop w c (sheet # rest) items tried =
     (case sheet_id sheet of
        None \<Rightarrow>
          if check_cache c ''None'' then add_sheet_data_loop w c rest items tried
          else (Inl TypeError, tried)
      | Some sid \<Rightarrow>
          if \<not> check_cache c sid then
            (case download_sheet w sid of
               Some df \<Rightarrow>
                 add_sheet_data_loop w c rest
                   (items @ [\<lparr>id_sheet_post = id_sheet_post sheet, title = title sheet,
                               created = created sheet, shortlink = shortlink sheet,
                               num_comments = 0, score = 0, author = author sheet,
                               sheet_id = sheet_id sheet, sheet_url = sheet_url sheet,
                               sheet_dl_date = Some (now w), sheet_raw = Some df\<rparr>])
                   (tried @ [sid])
             | None \<Rightarrow> add_sheet_data_loop w c rest items (tried @ [sid]))
          else add_sheet_data_loop w c rest items tried)"

definition add_sheet_data ::
  "world \<Rightarrow> cache \<Rightarrow> sheet_post list \<Rightarrow> (py_error + sheet_post list) \<times> string list" where
  "add_sheet_data w c unique_posts = add_sheet_data_loop w c unique_posts [] []"

text \<open>\<open>cache_sheets\<close>; \<open>f"sheet:{item.sheet_id}"\<close> formats an absent id as \<open>None\<close>.\<close>

fun cache_sheets :: "cache \<Rightarrow> sheet_post list \<Rightarrow> cache" where
  "cache_sheets c [] = c"
| "cache_sheets c (item # rest) =
     cache_sheets
       (hset c ''sheets''
          (''sheet:'' @ (case sheet_id item of None \<Rightarrow> ''None'' | Some sid \<Rightarrow> sid)) item)
       rest"

text \<open>
  \<open>sheet_query\<close> after the search: \<open>posts.sort(key=created, reverse=True)\<close> is a stable
  sort into descending order. The result is the returned dictionary, or the exception,
  with the cache as the run leaves it and the ids downloads were tried for.
\<close>

record query_result =
  unique_sheet_posts :: "sheet_post list"
  posts :: "sheet_post list"
  unique_sheets_r :: "sheet_post list"
  sheets_downloaded :: "sheet_post list"

definition sort_created_desc :: "sheet_post list \<Rightarrow> sheet_post list" where
  "sort_created_desc ps = sort_key (\<lambda>x. - created x) ps"

definition sheet_query ::
  "world \<Rightarrow> (string \<Rightarrow> string option) \<Rightarrow> cache \<Rightarrow> submission list
   \<Rightarrow> (py_error + query_result) \<times> cache \<times> string list" where
  "sheet_query w ext c ss =
     (case parse_submissions (fromtimestamp w) ext ss c of
        (Inl e, c1) \<Rightarrow> (Inl e, c1, [])
      | (Inr parsed, c1) \<Rightarrow>
          let sorted_posts = sort_created_desc parsed;
              u_posts = dedupe_submissions sorted_posts
          in (case unique_sheets sorted_posts of
                Inl e \<Rightarrow> (Inl e, c1, [])
              | Inr u_sheets \<Rightarrow>
                  (case add_sheet_data w c1 u_sheets of
                     (Inl e, tried) \<Rightarrow> (Inl e, c1, tried)
                   | (Inr dl_sheets, tried) \<Rightarrow>
                       (Inr \<lparr>unique_sheet_posts = u_posts, posts = sorted_posts,
                             unique_sheets_r = u_sheets, sheets_downloaded = dl_sheets\<rparr>,
                        cache_sheets c1 dl_sheets, tried))))"

section \<open>Properties of the fallback download\<close>

lemma attempts_append: "attempts (a @ b) = attempts a + attempts b"
  by (simp add: attempts_def)

lemma loop_exhausted: "gen_df_gspread_loop api 3 c tr = (None, tr)"
  by (subst gen_df_gspread_loop.simps) (simp add: max_retries_def)

lemma loop_fetched:
  "r < 3 \<Longrightarrow> api c = Fetched g \<Longrightarrow>
   gen_df_gspread_loop api r c tr = (Some g, tr @ [OpenByKey])"
  by (subst gen_df_gspread_loop.simps) (simp add: max_retries_def)

lemma loop_quota:
  "r < 3 \<Longrightarrow> api c = Raised e \<Longrightarrow> quota_exceeded e \<Longrightarrow>
   gen_df_gspread_loop api r c tr =
   gen_df_gspread_loop api (r + 1) (c + 1) (tr @ [OpenByKey, Sleep 65])"
  by (subst gen_df_gspread_loop.simps) (simp add: max_retries_def quota_exceeded_def)

lemma loop_not_supported:
  "r < 3 \<Longrightarrow> api c = Raised e \<Longrightarrow> not_supported e \<Longrightarrow>
   gen_df_gspread_loop api r c tr = (None, tr @ [OpenByKey])"
  by (subst gen_df_gspread_loop.simps) (simp add: max_retries_def not_supported_def)

lemma loop_other:
  "r + 1 < 3 \<Longrightarrow> api c = Raised e \<Longrightarrow> \<not> quota_exceeded e \<Longrightarrow> \<not> not_supported e \<Longrightarrow>
   gen_df_gspread_loop api r c tr =
   gen_df_gspread_loop api (r + 1) (c + 1) (tr @ [OpenByKey, Sleep 5])"
  by (subst gen_df_gspread_loop.simps)
     (simp add: max_retries_def quota_exceeded_def not_supported_def)

lemma loop_other_last:
  "api c = Raised e \<Longrightarrow> \<not> quota_exceeded e \<Longrightarrow> \<not> not_supported e \<Longrightarrow>
   gen_df_gspread_loop api 2 c tr = (None, tr @ [OpenByKey])"
  by (subst gen_df_gspread_loop.simps)
     (simp add: max_retries_def quota_exceeded_def not_supported_def)

lemma loop_trace_bound:
  "r \<le> 3 \<Longrightarrow>
   attempts (snd (gen_df_gspread_loop api r c tr)) \<le> attempts tr + (3 - r) \<and>
   set (snd (gen_df_gspread_loop api r c tr)) \<subseteq> set tr \<union> {OpenByKey, Sleep 65, Sleep 5}"
proof (induction "3 - r" arbitrary: r c tr)
  case 0
  then have "r = 3" by simp
  then show ?case by (auto simp: loop_exhausted)
next
  case (Suc n)
  then have lt: "r < 3" and le: "r + 1 \<le> 3" and n: "n = 3 - (r + 1)" by simp_all
  note IH = Suc.hyps(1)[OF n le]
  show ?case
  proof (cases "api c")
    case (Fetched g)
    then show ?thesis
      using lt by (auto simp: loop_fetched attempts_def)
  next
    case (Raised e)
    consider (q) "quota_exceeded e" | (u) "not_supported e"
      | (o) "\<not> quota_exceeded e" "\<not> not_supported e" "r + 1 < 3"
      | (l) "\<not> quota_exceeded e" "\<not> not_supported e" "r = 2"
      using lt by linarith
    then show ?thesis
    proof cases
      case q
      show ?thesis
        using IH[of "c + 1" "tr @ [OpenByKey, Sleep 65]"] lt
        by (auto simp: loop_quota[where api=api and c=c, OF lt Raised q] attempts_def)
    next
      case u
      show ?thesis
        using lt by (auto simp: loop_not_supported[where api=api and c=c, OF lt Raised u] attempts_def)
    next
      case o
      show ?thesis
        using IH[of "c + 1" "tr @ [OpenByKey, Sleep 5]"] lt
        by (auto simp: loop_other[where api=api and c=c, OF o(3) Raised o(1,2)] attempts_def)
    next
      case l
      show ?thesis
        using loop_other_last[where api=api and c=c and tr=tr, OF Raised l(1,2)] l(3)
        by (auto simp: attempts_def)
    qed
  qed
qed

text \<open>
  Claim C4. On the API path every exception whose text contains \<open>Quota exceeded\<close> is
  followed by a wait of 65 and every other retryable exception by a wait of 5, each
  followed by a new attempt while fewer than three attempts were made; at most three
  attempts are made in all, and three failures leave no grid. An exception whose text
  says the operation is not supported ends the download at once: no wait and no
  further attempt follow it.
\<close>

theorem gen_df_gspread_retry_policy:
  fixes api :: "nat \<Rightarrow> 'g outcome"
  shows
    "attempts (snd (gen_df_gspread api)) \<le> 3 \<and>
     (\<forall>d. Sleep d \<in> set (snd (gen_df_gspread api)) \<longrightarrow> d = 65 \<or> d = 5) \<and>
     (\<forall>e0. api 0 = Raised e0 \<and> not_supported e0 \<longrightarrow>
        gen_df_gspread api = (None, [OpenByKey])) \<and>
     (\<forall>e0 e1. api 0 = Raised e0 \<and> \<not> not_supported e0 \<and>
        api 1 = Raised e1 \<and> not_supported e1 \<longrightarrow>
        gen_df_gspread api =
          (None, [OpenByKey, Sleep (if quota_exceeded e0 then 65 else 5), OpenByKey])) \<and>
     (\<forall>e0 e1 e2. api 0 = Raised e0 \<and> \<not> not_supported e0 \<and>
        api 1 = Raised e1 \<and> \<not> not_supported e1 \<and>
        api 2 = Raised e2 \<and> not_supported e2 \<longrightarrow>
        gen_df_gspread api =
          (None, [OpenByKey, Sleep (if quota_exceeded e0 then 65 else 5),
                  OpenByKey, Sleep (if quota_exceeded e1 then 65 else 5), OpenByKey])) \<and>
     (\<forall>e0 e1 e2. api 0 = Raised e0 \<and> \<not> not_supported e0 \<and>
        api 1 = Raised e1 \<and> \<not> not_supported e1 \<and>
        api 2 = Raised e2 \<and> \<not> not_supported e2 \<longrightarrow>
        gen_df_gspread api =
          (None, [OpenByKey, Sleep (if quota_exceeded e0 then 65 else 5),
                  OpenByKey, Sleep (if quota_exceeded e1 then 65 else 5), OpenByKey]
                 @ (if quota_exceeded e2 then [Sleep 65] else [])))"
proof -
  have step: "gen_df_gspread_loop api r c tr =
      gen_df_gspread_loop api (r + 1) (c + 1)
        (tr @ [OpenByKey, Sleep (if quota_exceeded e then 65 else 5)])"
    if "r + 1 < 3" "api c = Raised e" "\<not> not_supported e" for r c tr e
  proof (cases "quota_exceeded e")
    case True
    from that have "r < 3" by simp
    from loop_quota[where api=api and c=c, OF this that(2) True] True show ?thesis by simp
  next
    case False
    from loop_other[where api=api and c=c, OF that(1,2) False that(3)] False
    show ?thesis by simp
  qed
  have last: "gen_df_gspread_loop api 2 c tr =
      (None, tr @ [OpenByKey] @ (if quota_exceeded e then [Sleep 65] else []))"
    if "api c = Raised e" "\<not> not_supported e" for c tr e
  proof (cases "quota_exceeded e")
    case True
    have "(2::nat) < 3" by simp
    from loop_quota[where api=api and c=c and tr=tr, OF this that(1) True] True
    show ?thesis by (simp add: loop_exhausted)
  next
    case False
    from loop_other_last[where api=api and c=c, OF that(1) False that(2)] False
    show ?thesis by simp
  qed
  have b: "attempts (snd (gen_df_gspread api)) \<le> 3"
    using loop_trace_bound[of 0 api 0 "[]"] by (simp add: gen_df_gspread_def attempts_def)
  have s: "\<forall>d. Sleep d \<in> set (snd (gen_df_gspread api)) \<longrightarrow> d = 65 \<or> d = 5"
    using loop_trace_bound[of 0 api 0 "[]"] by (auto simp: gen_df_gspread_def)
  have u0: "\<forall>e0. api 0 = Raised e0 \<and> not_supported e0 \<longrightarrow>
        gen_df_gspread api = (None, [OpenByKey])"
    by (simp add: gen_df_gspread_def loop_not_supported[where api=api and c=0])
  have u1: "\<forall>e0 e1. api 0 = Raised e0 \<and> \<not> not_supported e0 \<and>
        api 1 = Raised e1 \<and> not_supported e1 \<longrightarrow>
        gen_df_gspread api =
          (None, [OpenByKey, Sleep (if quota_exceeded e0 then 65 else 5), OpenByKey])"
    by (auto simp: gen_df_gspread_def step[where r=0 and c=0, simplified]
          loop_not_supported[where api=api and c=1 and r=1, simplified])
  have u2: "\<forall>e0 e1 e2. api 0 = Raised e0 \<and> \<not> not_supported e0 \<and>
        api 1 = Raised e1 \<and> \<not> not_supported e1 \<and>
        api 2 = Raised e2 \<and> not_supported e2 \<longrightarrow>
        gen_df_gspread api =
          (None, [OpenByKey, Sleep (if quota_exceeded e0 then 65 else 5),
                  OpenByKey, Sleep (if quota_exceeded e1 then 65 else 5), OpenByKey])"
    by (auto simp: gen_df_gspread_def numeral_2_eq_2 step[where r=0 and c=0, simplified]
          step[where r=1 and c=1, simplified]
          loop_not_supported[where api=api and c="Suc (Suc 0)" and r="Suc (Suc 0)", simplified])
  have x: "\<forall>e0 e1 e2. api 0 = Raised e0 \<and> \<not> not_supported e0 \<and>
        api 1 = Raised e1 \<and> \<not> not_supported e1 \<and>
        api 2 = Raised e2 \<and> \<not> not_supported e2 \<longrightarrow>
        gen_df_gspread api =
          (None, [OpenByKey, Sleep (if quota_exceeded e0 then 65 else 5),
                  OpenByKey, Sleep (if quota_exceeded e1 then 65 else 5), OpenByKey]
                 @ (if quota_exceeded e2 then [Sleep 65] else []))"
    by (auto simp: gen_df_gspread_def numeral_2_eq_2 step[where r=0 and c=0, simplified]
          step[where r=1 and c=1, simplified] last[where c="Suc (Suc 0)", unfolded numeral_2_eq_2])
  from b s u0 u1 u2 x show ?thesis by blast
qed

theorem gen_df_gspread_retry_policy_witness:
  "gen_df_gspread (\<lambda>n. Raised ''APIError: Quota exceeded for quota metric'' :: unit outcome)
     = (None, [OpenByKey, Sleep 65, OpenByKey, Sleep 65, OpenByKey, Sleep 65]) \<and>
   gen_df_gspread (\<lambda>n. Raised ''Connection reset by peer'' :: unit outcome)
     = (None, [OpenByKey, Sleep 5, OpenByKey, Sleep 5, OpenByKey]) \<and>
   gen_df_gspread (\<lambda>n. Raised ''This operation is not supported for this document'' :: unit outcome)
     = (None, [OpenByKey])"
  using gen_df_gspread_retry_policy
          [of "\<lambda>n. Raised ''APIError: Quota exceeded for quota metric'' :: unit outcome"]
        gen_df_gspread_retry_policy
          [of "\<lambda>n. Raised ''Connection reset by peer'' :: unit outcome"]
        gen_df_gspread_retry_policy
          [of "\<lambda>n. Raised ''This operation is not supported for this document'' :: unit outcome"]
  by (simp add: quota_exceeded_def not_supported_def)

section \<open>Properties of the string primitives and of \<open>Author\<close>\<close>













section \<open>Properties of \<open>clean_url\<close>\<close>

lemma starts_with_prefix: "starts_with s p \<longleftrightarrow> prefix p s"
  by (induction s p rule: starts_with.induct) auto

lemma py_find_slice:
  "py_contains sub s \<Longrightarrow> 0 \<le> py_find s sub \<and> starts_with (drop (nat (py_find s sub)) s) sub"
proof (induction s)
  case Nil
  then show ?case by simp
next
  case (Cons c cs)
  show ?case
  proof (cases "starts_with (c # cs) sub")
    case True
    then show ?thesis by simp
  next
    case False
    with Cons.prems have "py_contains sub cs" by simp
    from Cons.IH[OF this] False show ?thesis
      by (simp add: Let_def nat_add_distrib)
  qed
qed

lemma py_split_acc_unfold:
  "py_split_acc w s =
     (if w @ takeWhile (\<lambda>c. \<not> py_isspace c) s = [] then []
      else [w @ takeWhile (\<lambda>c. \<not> py_isspace c) s])
     @ py_split_acc [] (dropWhile (\<lambda>c. \<not> py_isspace c) s)"
proof (induction s arbitrary: w)
  case Nil
  then show ?case by simp
next
  case (Cons c cs)
  show ?case
  proof (cases "py_isspace c")
    case True
    then show ?thesis by simp
  next
    case False
    then show ?thesis using Cons.IH[of "w @ [c]"] by simp
  qed
qed

lemma BASE_URL_chars:
  "\<forall>c \<in> set BASE_URL. \<not> py_isspace c \<and> c \<noteq> CHR '']'' \<and> c \<noteq> CHR 0x5C \<and> c \<noteq> CHR '')''"
  by (simp add: BASE_URL_def py_isspace_def code_in_def)

lemma BASE_URL_last: "BASE_URL \<noteq> [] \<and> last BASE_URL = CHR ''/''"
  by (simp add: BASE_URL_def)

lemma py_split_first_token:
  assumes "s \<noteq> []" "\<not> py_isspace (hd s)"
  shows "\<exists>rest. py_split s = takeWhile (\<lambda>c. \<not> py_isspace c) s # rest"
proof -
  from assms have "takeWhile (\<lambda>c. \<not> py_isspace c) s \<noteq> []"
    by (cases s) auto
  then show ?thesis
    unfolding py_split_def by (subst py_split_acc_unfold) simp
qed

lemma py_split_single:
  assumes "u \<noteq> []" "\<forall>c \<in> set u. \<not> py_isspace c"
  shows "py_split u = [u]"
proof -
  from assms(2) have t: "takeWhile (\<lambda>c. \<not> py_isspace c) u = u"
    and d: "dropWhile (\<lambda>c. \<not> py_isspace c) u = []" by simp_all
  show ?thesis
    unfolding py_split_def by (subst py_split_acc_unfold) (simp add: t d assms(1))
qed

lemma py_split_first_id: "c \<notin> set s \<Longrightarrow> py_split_first c s = s"
  by (induction s) (auto simp: py_split_first_def)

lemma py_split_first_notin: "c \<notin> set (py_split_first c s)"
  by (induction s) (auto simp: py_split_first_def)

lemma py_remove_id: "c \<notin> set v \<Longrightarrow> py_remove c v = v"
  by (induction v) (auto simp: py_remove_def)

lemma set_py_remove: "set (py_remove c v) = set v - {c}"
  by (auto simp: py_remove_def)

text \<open>What the four steps of \<open>clean_url\<close> make of the token.\<close>

lemma clean_tail:
  "(let u3 = (if CHR 0x5C \<in> set u2
                    then py_remove (CHR 0x5C) (py_remove CHR '')'' u2) else u2);
        u4 = (if CHR '')'' \<in> set u3 then py_remove CHR '')'' u3 else u3)
    in u4) = py_remove (CHR 0x5C) (py_remove CHR '')'' u2)"
proof (cases "CHR 0x5C \<in> set u2")
  case True
  then show ?thesis by (simp add: set_py_remove)
next
  case False
  then have "py_remove (CHR 0x5C) (py_remove CHR '')'' u2) = py_remove CHR '')'' u2"
    by (simp add: py_remove_id set_py_remove)
  with False show ?thesis by (simp add: py_remove_id)
qed

lemma clean_url_steps:
  "clean_url comment =
     (case py_split (py_slice_from comment (py_find comment BASE_URL)) of
        [] \<Rightarrow> Inl IndexError
      | t # ts \<Rightarrow>
          Inr (py_remove (CHR 0x5C) (py_remove CHR '')''
            (strip_dot (py_split_first CHR '']'' t)))))"
proof (cases "py_split (py_slice_from comment (py_find comment BASE_URL))")
  case Nil
  then show ?thesis by (simp add: clean_url_def)
next
  case (Cons t ts)
  have e1: "(if CHR '']'' \<in> set t then py_split_first CHR '']'' t else t)
             = py_split_first CHR '']'' t"
    by (simp add: py_split_first_id)
  show ?thesis
    by (simp only: clean_url_def Cons list.case Let_def e1 strip_dot_def[symmetric]
          clean_tail[unfolded Let_def])
qed

lemma set_strip_dot: "set (strip_dot u) \<subseteq> set u"
  by (auto simp: strip_dot_def dest: in_set_butlastD)

lemma prefix_takeWhile:
  "prefix B s \<Longrightarrow> \<forall>c \<in> set B. P c \<Longrightarrow> prefix B (takeWhile P s)"
  by (auto simp: prefix_def takeWhile_append2)

lemma prefix_strip_dot:
  assumes "prefix B u" "B \<noteq> []" "last B \<noteq> CHR ''.''"
  shows "prefix B (strip_dot u)"
proof -
  from assms(1) obtain a where u: "u = B @ a" by (auto simp: prefix_def)
  show ?thesis
  proof (cases "a = []")
    case True
    with u assms show ?thesis by (simp add: strip_dot_def py_endswith_def)
  next
    case False
    with u show ?thesis by (simp add: strip_dot_def py_endswith_def butlast_append)
  qed
qed

lemma prefix_py_remove:
  assumes "prefix B u" "c \<notin> set B"
  shows "prefix B (py_remove c u)"
proof -
  from assms(1) obtain a where u: "u = B @ a" by (auto simp: prefix_def)
  from assms(2) have "py_remove c B = B" by (rule py_remove_id)
  then have "py_remove c u = B @ py_remove c a"
    by (simp add: u py_remove_def)
  then show ?thesis by simp
qed

lemma clean_url_first_pass:
  assumes "py_contains BASE_URL x"
  shows "\<exists>u. clean_url x = Inr u \<and> prefix BASE_URL u \<and>
           (\<forall>c \<in> set u. \<not> py_isspace c \<and> c \<noteq> CHR '']'' \<and> c \<noteq> CHR 0x5C \<and> c \<noteq> CHR '')'')"
proof -
  define sl where "sl = py_slice_from x (py_find x BASE_URL)"
  from py_find_slice[OF assms] have f: "0 \<le> py_find x BASE_URL"
    and sw: "starts_with (drop (nat (py_find x BASE_URL)) x) BASE_URL" by simp_all
  from f have "sl = drop (nat (py_find x BASE_URL)) x"
    by (simp add: sl_def py_slice_from_def)
  with sw have pre: "prefix BASE_URL sl" by (simp add: starts_with_prefix)
  then obtain r where sl: "sl = BASE_URL @ r" by (auto simp: prefix_def)
  have ne: "sl \<noteq> []" using sl BASE_URL_last by simp
  have "hd sl \<in> set BASE_URL" using sl BASE_URL_last by (cases BASE_URL) auto
  with BASE_URL_chars have "\<not> py_isspace (hd sl)" by blast
  from py_split_first_token[OF ne this] obtain rest where
    sp: "py_split sl = takeWhile (\<lambda>c. \<not> py_isspace c) sl # rest" by blast
  define tok where "tok = takeWhile (\<lambda>c. \<not> py_isspace c) sl"
  define u1 where "u1 = py_split_first CHR '']'' tok"
  define u2 where "u2 = strip_dot u1"
  define u where "u = py_remove (CHR 0x5C) (py_remove CHR '')'' u2)"
  have cu: "clean_url x = Inr u"
    by (simp add: clean_url_steps sl_def[symmetric] sp u_def u2_def u1_def tok_def)
  have p0: "prefix BASE_URL tok"
    unfolding tok_def using pre BASE_URL_chars by (intro prefix_takeWhile) auto
  have p1: "prefix BASE_URL u1"
    unfolding u1_def py_split_first_def using p0 BASE_URL_chars
    by (intro prefix_takeWhile) auto
  have p2: "prefix BASE_URL u2"
    unfolding u2_def using p1 BASE_URL_last by (intro prefix_strip_dot) auto
  have p3: "prefix BASE_URL u"
    unfolding u_def using p2 BASE_URL_chars by (intro prefix_py_remove) auto
  have c0: "\<forall>c \<in> set tok. \<not> py_isspace c"
    unfolding tok_def by (auto dest: set_takeWhileD)
  have c1: "set u1 \<subseteq> set tok" "CHR '']'' \<notin> set u1"
    unfolding u1_def using py_split_first_notin[of "CHR '']''" tok]
    by (auto simp: py_split_first_def dest: set_takeWhileD)
  have c2: "set u2 \<subseteq> set u1" unfolding u2_def by (rule set_strip_dot)
  have c3: "set u = set u2 - {CHR '')'', CHR 0x5C}"
    unfolding u_def by (auto simp: set_py_remove)
  from c0 c1 c2 c3 have
    "\<forall>c \<in> set u. \<not> py_isspace c \<and> c \<noteq> CHR '']'' \<and> c \<noteq> CHR 0x5C \<and> c \<noteq> CHR '')''"
    by auto
  with cu p3 show ?thesis by blast
qed

lemma clean_url_second_pass:
  assumes "prefix BASE_URL u"
    and "\<forall>c \<in> set u. \<not> py_isspace c \<and> c \<noteq> CHR '']'' \<and> c \<noteq> CHR 0x5C \<and> c \<noteq> CHR '')''"
  shows "clean_url u = Inr (strip_dot u)"
proof -
  from assms(1) BASE_URL_last have ne: "u \<noteq> []" by auto
  from assms(1) have "starts_with u BASE_URL" by (simp add: starts_with_prefix)
  with ne have f: "py_find u BASE_URL = 0" by (cases u) simp_all
  have sl: "py_slice_from u (py_find u BASE_URL) = u" by (simp add: f py_slice_from_def)
  from assms(2) have "py_split u = [u]" using ne by (intro py_split_single) auto
  then have "clean_url u =
      Inr (py_remove (CHR 0x5C) (py_remove CHR '')'' (strip_dot (py_split_first CHR '']'' u))))"
    by (simp add: clean_url_steps sl)
  moreover have "py_split_first CHR '']'' u = u"
    using assms(2) by (intro py_split_first_id) auto
  moreover have "py_remove CHR '')'' (strip_dot u) = strip_dot u"
    using assms(2) set_strip_dot[of u] by (intro py_remove_id) auto
  moreover have "py_remove (CHR 0x5C) (strip_dot u) = strip_dot u"
    using assms(2) set_strip_dot[of u] by (intro py_remove_id) auto
  ultimately show ?thesis by simp
qed

text \<open>
  Claim C6, as amended. For every text that contains the base URL, \<open>clean_url\<close>
  returns a URL, and applying \<open>clean_url\<close> to that URL again removes one further
  period from its end and changes nothing else. So two applications equal one
  exactly when the URL cleaned once does not end in a period.
\<close>

theorem clean_url_twice_strips_dot:
  assumes "py_contains BASE_URL x"
  shows "\<exists>u. clean_url x = Inr u \<and> clean_url_twice x = Inr (strip_dot u) \<and>
           (\<not> py_endswith u CHR ''.'' \<longrightarrow> clean_url_twice x = clean_url x)"
proof -
  from clean_url_first_pass[OF assms] obtain u where
    cu: "clean_url x = Inr u" and p: "prefix BASE_URL u"
    and c: "\<forall>c \<in> set u. \<not> py_isspace c \<and> c \<noteq> CHR '']'' \<and> c \<noteq> CHR 0x5C \<and> c \<noteq> CHR '')''"
    by blast
  from clean_url_second_pass[OF p c] cu
  have t: "clean_url_twice x = Inr (strip_dot u)" by (simp add: clean_url_twice_def)
  with cu have "\<not> py_endswith u CHR ''.'' \<longrightarrow> clean_url_twice x = clean_url x"
    by (simp add: strip_dot_def)
  with cu t show ?thesis by blast
qed

theorem clean_url_twice_strips_dot_witness:
  "py_contains BASE_URL ''[sheet](https://docs.google.com/spreadsheets/d/ab/edit)] thanks'' \<and>
   (\<exists>u. clean_url ''[sheet](https://docs.google.com/spreadsheets/d/ab/edit)] thanks'' = Inr u \<and>
        clean_url_twice ''[sheet](https://docs.google.com/spreadsheets/d/ab/edit)] thanks''
          = Inr (strip_dot u) \<and>
        (\<not> py_endswith u CHR ''.'' \<longrightarrow>
           clean_url_twice ''[sheet](https://docs.google.com/spreadsheets/d/ab/edit)] thanks''
           = clean_url ''[sheet](https://docs.google.com/spreadsheets/d/ab/edit)] thanks''))"
proof -
  have h: "py_contains BASE_URL
      ''[sheet](https://docs.google.com/spreadsheets/d/ab/edit)] thanks''"
    by code_simp
  from h clean_url_twice_strips_dot[OF h] show ?thesis by (rule conjI)
qed

text \<open>
  The claim as stated fails when the period is followed by a closing parenthesis (or by
  a second period): the first pass tests for the period before it removes the
  parenthesis, and the second pass then finds the period at the end.
\<close>

theorem clean_url_not_idempotent_counterexample:
  "clean_url ''see https://docs.google.com/spreadsheets/d/abc/edit.) thanks''
     = Inr ''https://docs.google.com/spreadsheets/d/abc/edit.'' \<and>
   clean_url_twice ''see https://docs.google.com/spreadsheets/d/abc/edit.) thanks''
     = Inr ''https://docs.google.com/spreadsheets/d/abc/edit'' \<and>
   clean_url_twice ''see https://docs.google.com/spreadsheets/d/abc/edit.) thanks''
     \<noteq> clean_url ''see https://docs.google.com/spreadsheets/d/abc/edit.) thanks''"
  by code_simp

section \<open>Properties of header detection and header mapping\<close>

lemma distinct_mapping_keys: "distinct mapping_keys"
  by (simp add: mapping_keys_def)

lemma distinct_count_list_le: "distinct xs \<Longrightarrow> count_list xs x = (if x \<in> set xs then 1 else 0)"
  by (induction xs) auto

lemma count_mapping_keys:
  "count_list mapping_keys k = (if k \<in> set mapping_keys then 1 else 0)"
  using distinct_mapping_keys by (rule distinct_count_list_le)

lemma header_match_count_card:
  "header_match_count row = card (set row \<inter> set mapping_keys)"
proof -
  have "header_match_count row = (\<Sum>k\<in>set row. count_list mapping_keys k)"
    by (simp add: header_match_count_def sum_list_distinct_conv_sum_set)
  also have "\<dots> = (\<Sum>k\<in>set row. if k \<in> set mapping_keys then 1 else 0)"
    by (simp only: count_mapping_keys)
  also have "\<dots> = card (set row \<inter> set mapping_keys)"
    by (simp add: sum.If_cases Int_def)
  finally show ?thesis .
qed




lemma header_find_column:
  "2 \<le> header_match_count (df_lower_strip df) \<Longrightarrow>
   header_find df = Inr (Some \<lparr>loc = Column, col_values = df_lower_strip df,
      match_count = header_match_count (df_lower_strip df), found = True\<rparr>)"
  by (simp add: header_find_def Let_def)

lemma header_find_scan:
  assumes "\<not> 2 \<le> header_match_count (df_lower_strip df)"
  shows "header_find df =
     (case search_rows_for_header df of
           Some i \<Rightarrow>
             if i < length (rows (fillna df)) then
               (case lower_strip_all (filter (\<lambda>x. x \<noteq> CNone) (rows (fillna df) ! i)) of
                  Inl e \<Rightarrow> Inl e
                | Inr cols \<Rightarrow>
                    if header_match_count cols > 2 then
                      Inr (Some \<lparr>loc = Row i, col_values = cols,
                                 match_count = header_match_count cols, found = True\<rparr>)
                    else Inr None)
             else Inl IndexError
         | None \<Rightarrow> Inr None)"
  using assms by (simp add: header_find_def Let_def)

lemma header_find_row:
  assumes "header_find df = Inr (Some r)" "loc r = Row i"
  shows "\<not> 2 \<le> header_match_count (df_lower_strip df) \<and>
         search_rows_for_header df = Some i \<and>
         lower_strip_all (filter (\<lambda>x. x \<noteq> CNone) (rows (fillna df) ! i)) = Inr (col_values r) \<and>
         match_count r = header_match_count (col_values r) \<and> 2 < match_count r \<and> found r"
proof -
  have n: "\<not> 2 \<le> header_match_count (df_lower_strip df)"
  proof
    assume "2 \<le> header_match_count (df_lower_strip df)"
    from header_find_column[OF this] assms show False by simp
  qed
  from assms(1) header_find_scan[OF n] obtain k where
    k: "search_rows_for_header df = Some k"
    by (cases "search_rows_for_header df") simp_all
  with assms(1) header_find_scan[OF n] have lt: "k < length (rows (fillna df))"
    by (simp split: if_splits)
  with k assms(1) header_find_scan[OF n] obtain cols where
    c: "lower_strip_all (filter (\<lambda>x. x \<noteq> CNone) (rows (fillna df) ! k)) = Inr cols"
    by (cases "lower_strip_all (filter (\<lambda>x. x \<noteq> CNone) (rows (fillna df) ! k))") simp_all
  with k lt assms(1) header_find_scan[OF n] have
    r: "2 < header_match_count cols"
       "r = \<lparr>loc = Row k, col_values = cols, match_count = header_match_count cols, found = True\<rparr>"
    by (simp_all split: if_splits)
  with assms(2) have "k = i" by simp
  with n k c r show ?thesis by simp
qed

text \<open>
  Claim C3, as amended. \<open>header_find\<close> accepts the column row exactly when at least
  two distinct lower-cased, trimmed column labels are field names of the schema; it then
  returns \<open>found\<close>, the location \<open>Column\<close>, the labels, and that number as the match
  count. The match count is the number of distinct labels that are field names. A row
  is returned only when it is the row the scan found, all its values are texts, and its
  match count is greater than 2.
\<close>

theorem header_find_thresholds:
  "(2 \<le> header_match_count (df_lower_strip df) \<longleftrightarrow>
      (\<exists>r. header_find df = Inr (Some r) \<and> loc r = Column)) \<and>
   (2 \<le> header_match_count (df_lower_strip df) \<longrightarrow>
      header_find df = Inr (Some \<lparr>loc = Column, col_values = df_lower_strip df,
        match_count = header_match_count (df_lower_strip df), found = True\<rparr>)) \<and>
   header_match_count (df_lower_strip df) = card (set (df_lower_strip df) \<inter> set mapping_keys) \<and>
   (\<forall>r i. header_find df = Inr (Some r) \<and> loc r = Row i \<longrightarrow>
      2 < match_count r \<and> found r \<and> search_rows_for_header df = Some i \<and>
      lower_strip_all (filter (\<lambda>x. x \<noteq> CNone) (rows (fillna df) ! i)) = Inr (col_values r) \<and>
      match_count r = card (set (col_values r) \<inter> set mapping_keys))"
proof -
  have a: "2 \<le> header_match_count (df_lower_strip df) \<longrightarrow>
      header_find df = Inr (Some \<lparr>loc = Column, col_values = df_lower_strip df,
        match_count = header_match_count (df_lower_strip df), found = True\<rparr>)"
    using header_find_column by blast
  have b: "(\<exists>r. header_find df = Inr (Some r) \<and> loc r = Column) \<longrightarrow>
      2 \<le> header_match_count (df_lower_strip df)"
  proof (intro impI, elim exE conjE)
    fix r assume h: "header_find df = Inr (Some r)" and l: "loc r = Column"
    show "2 \<le> header_match_count (df_lower_strip df)"
    proof (rule ccontr)
      assume n: "\<not> 2 \<le> header_match_count (df_lower_strip df)"
      from h l header_find_scan[OF n] show False
        by (auto split: option.splits if_splits sum.splits)
    qed
  qed
  have c: "\<forall>r i. header_find df = Inr (Some r) \<and> loc r = Row i \<longrightarrow>
      2 < match_count r \<and> found r \<and> search_rows_for_header df = Some i \<and>
      lower_strip_all (filter (\<lambda>x. x \<noteq> CNone) (rows (fillna df) ! i)) = Inr (col_values r) \<and>
      match_count r = card (set (col_values r) \<inter> set mapping_keys)"
    using header_find_row header_match_count_card by metis
  from a have a': "2 \<le> header_match_count (df_lower_strip df) \<longrightarrow>
      (\<exists>r. header_find df = Inr (Some r) \<and> loc r = Column)" by auto
  from a a' b c header_match_count_card[of "df_lower_strip df"] show ?thesis by blast
qed


theorem header_find_thresholds_witness:
  "2 \<le> header_match_count
      (df_lower_strip \<lparr>columns = [''Price'', ''Mold'', ''Plastic'', ''Color''], rows = []\<rparr>) \<and>
   header_find \<lparr>columns = [''Price'', ''Mold'', ''Plastic'', ''Color''], rows = []\<rparr> =
     Inr (Some \<lparr>loc = Column, col_values = [''price'', ''mold'', ''plastic'', ''color''],
                match_count = 4, found = True\<rparr>) \<and>
   header_find \<lparr>columns = [''a'', ''b'', ''c'', ''d'', ''e''],
       rows = [ [CStr ''my discs'', CNone, CNone, CNone, CNone],
               [CStr [], CStr ''mold'', CStr ''plastic'', CStr ''price'', CStr []]]\<rparr> =
     Inr (Some \<lparr>loc = Row 1, col_values = [ [], ''mold'', ''plastic'', ''price'', []],
                match_count = 3, found = True\<rparr>) \<and>
   search_rows_for_header \<lparr>columns = [''a'', ''b'', ''c'', ''d'', ''e''],
       rows = [ [CStr ''my discs'', CNone, CNone, CNone, CNone],
               [CStr [], CStr ''mold'', CStr ''plastic'', CStr ''price'', CStr []]]\<rparr> = Some 1"
proof -
  let ?d1 = "\<lparr>columns = [''Price'', ''Mold'', ''Plastic'', ''Color''], rows = []\<rparr>"
  let ?d2 = "\<lparr>columns = [''a'', ''b'', ''c'', ''d'', ''e''],
       rows = [ [CStr ''my discs'', CNone, CNone, CNone, CNone],
               [CStr [], CStr ''mold'', CStr ''plastic'', CStr ''price'', CStr []]]\<rparr>"
  let ?r2 = "\<lparr>loc = Row 1, col_values = [ [], ''mold'', ''plastic'', ''price'', []],
                match_count = 3, found = True\<rparr>"
  have c1: "2 \<le> header_match_count (df_lower_strip ?d1)" by code_simp
  have v1: "df_lower_strip ?d1 = [''price'', ''mold'', ''plastic'', ''color'']" by code_simp
  have m1: "header_match_count [''price'', ''mold'', ''plastic'', ''color''] = 4" by code_simp
  have h1: "header_find ?d1 =
     Inr (Some \<lparr>loc = Column, col_values = [''price'', ''mold'', ''plastic'', ''color''],
                match_count = 4, found = True\<rparr>)"
    using header_find_thresholds[of ?d1, THEN conjunct2, THEN conjunct1, rule_format, OF c1]
    by (simp only: v1 m1)
  have h2: "header_find ?d2 = Inr (Some ?r2)" by code_simp
  have l2: "loc ?r2 = Row 1" by simp
  have s2: "search_rows_for_header ?d2 = Some 1"
    using header_find_thresholds[of ?d2, THEN conjunct2, THEN conjunct2, THEN conjunct2,
        rule_format, of ?r2 1, OF conjI, OF h2 l2]
    by (elim conjE)
  from c1 h1 h2 s2 show ?thesis by (intro conjI)
qed

text \<open>
  The claim as stated counts labels, not distinct labels: the columns \<open>Price\<close> and
  \<open>price \<close> are two labels that are field names after lower-casing and trimming, yet
  the match count is 1 and the column row is not accepted.
\<close>

theorem header_find_duplicate_labels_counterexample:
  "length (filter (\<lambda>l. l \<in> set mapping_keys)
      (df_lower_strip \<lparr>columns = [''Price'', ''price ''], rows = []\<rparr>)) = 2 \<and>
   header_match_count (df_lower_strip \<lparr>columns = [''Price'', ''price ''], rows = []\<rparr>) = 1 \<and>
   header_find \<lparr>columns = [''Price'', ''price ''], rows = []\<rparr> = Inr None"
  by code_simp




text \<open>
  Claim C2 at the header \<open>price shipped\<close>: the synonym \<open>price\<close> is contained in it, the
  key \<open>price\<close> is appended, and the loop over the keys goes on to \<open>price_shipped\<close>,
  whose synonym \<open>shipp\<close> is contained too. One header gives two output labels.
\<close>

theorem map_headers_price_shipped:
  "map_headers [''price shipped''] mappings = [''price'', ''price_shipped''] \<and>
   length (map_headers [''price shipped''] mappings) = 2"
  by code_simp

section \<open>Properties of \<open>parse_submissions\<close>\<close>

lemma make_sheet_post_fields:
  "make_sheet_post fts post sid surl = Inr sp \<Longrightarrow>
     sheet_id sp = sid \<and> sheet_url sp = surl \<and> author sp \<noteq> None \<and>
     id_sheet_post sp = post_id post"
  by (cases "post_author post") (auto simp: make_sheet_post_def)

text \<open>One iteration of the loop of \<open>parse_submissions\<close>.\<close>

lemma parse_submissions_step:
  assumes "parse_submissions_loop fts ext (post # rest) c acc = (res, c')"
  shows "parse_submissions_loop fts ext rest c acc = (res, c') \<or>
     (\<exists>e. res = Inl e \<and> c' = c) \<or>
     (\<exists>sp key. sheet_id sp = None \<and> author sp \<noteq> None \<and>
        parse_submissions_loop fts ext rest (cache_set c key sp) acc = (res, c')) \<or>
     (\<exists>sp key. sheet_url sp \<noteq> None \<and> author sp \<noteq> None \<and>
        parse_submissions_loop fts ext rest (cache_set c key sp) (acc @ [sp]) = (res, c'))"
proof (cases "cache_exists c (''post:'' @ post_id post)")
  case True
  with assms show ?thesis by simp
next
  case nc: False
  show ?thesis
  proof (cases "find_sheet_url post")
    case (Inl e)
    with nc assms have "res = Inl e \<and> c' = c" by simp
    then show ?thesis by blast
  next
    case (Inr fu)
    show ?thesis
    proof (cases "\<exists>u. fu = Some u \<and> u \<noteq> []")
      case True
      then obtain u where fu: "fu = Some u" "u \<noteq> []" by blast
      show ?thesis
      proof (cases "make_sheet_post fts post (gen_doc_id ext u) (Some u)")
        case (Inl e)
        with nc Inr fu assms have "res = Inl e \<and> c' = c" by simp
        then show ?thesis by blast
      next
        case sp: (Inr sp)
        from make_sheet_post_fields[OF sp] have f: "sheet_url sp \<noteq> None" "author sp \<noteq> None"
          by simp_all
        from nc Inr fu sp assms have
          "parse_submissions_loop fts ext rest (cache_set c (''post:'' @ id_sheet_post sp) sp)
             (acc @ [sp]) = (res, c')" by simp
        with f show ?thesis by blast
      qed
    next
      case False
      then have fu: "fu = None \<or> fu = Some []" by (cases fu) auto
      show ?thesis
      proof (cases "make_sheet_post fts post None None")
        case (Inl e)
        from fu have "res = Inl e \<and> c' = c"
        proof
          assume "fu = None"
          with nc Inr Inl assms show ?thesis by simp
        next
          assume "fu = Some []"
          with nc Inr Inl assms show ?thesis by simp
        qed
        then show ?thesis by blast
      next
        case sp: (Inr sp)
        from make_sheet_post_fields[OF sp] have f: "sheet_id sp = None" "author sp \<noteq> None"
          by simp_all
        from fu have
          "parse_submissions_loop fts ext rest (cache_set c (''post:'' @ post_id post) sp) acc
             = (res, c')"
        proof
          assume "fu = None"
          with nc Inr sp assms show ?thesis by simp
        next
          assume "fu = Some []"
          with nc Inr sp assms show ?thesis by simp
        qed
        with f show ?thesis by blast
      qed
    qed
  qed
qed


lemma parse_submissions_loop_hashes:
  "parse_submissions_loop fts ext subs c acc = (res, c') \<Longrightarrow> hashes c' = hashes c"
proof (induction subs arbitrary: c acc)
  case Nil
  then show ?case by simp
next
  case (Cons post rest)
  from parse_submissions_step[OF Cons.prems] show ?case
  proof (elim disjE exE conjE)
    assume "parse_submissions_loop fts ext rest c acc = (res, c')"
    then show ?thesis by (rule Cons.IH)
  next
    fix e assume "c' = c"
    then show ?thesis by simp
  next
    fix sp key
    assume "parse_submissions_loop fts ext rest (cache_set c key sp) acc = (res, c')"
    from Cons.IH[OF this] show ?thesis by (simp add: cache_set_def)
  next
    fix sp key
    assume "parse_submissions_loop fts ext rest (cache_set c key sp) (acc @ [sp]) = (res, c')"
    from Cons.IH[OF this] show ?thesis by (simp add: cache_set_def)
  qed
qed








text \<open>
  Claim C9 at a submission whose author is absent: \<open>parse_submissions\<close> raises
  \<open>AttributeError\<close>, builds no \<open>SheetPost\<close> and writes nothing under the post's key.
\<close>

theorem parse_submissions_deleted_author:
  "fst (parse_submissions (\<lambda>t. t) extract_id_from_url
     [\<lparr>post_id = ''abc'', post_title = ''My sheet'', post_selftext = ''see comments'',
       post_url = ''https://reddit.com/abc'', post_created_utc = 100,
       post_shortlink = ''https://redd.it/abc'', post_num_comments = 0, post_score = 1,
       post_author = None, post_author_flair_text = None, post_comments = []\<rparr>]
     \<lparr>kv = Map.empty, hashes = (\<lambda>h. Map.empty)\<rparr>) = Inl AttributeError \<and>
   kv (snd (parse_submissions (\<lambda>t. t) extract_id_from_url
     [\<lparr>post_id = ''abc'', post_title = ''My sheet'', post_selftext = ''see comments'',
       post_url = ''https://reddit.com/abc'', post_created_utc = 100,
       post_shortlink = ''https://redd.it/abc'', post_num_comments = 0, post_score = 1,
       post_author = None, post_author_flair_text = None, post_comments = []\<rparr>]
     \<lparr>kv = Map.empty, hashes = (\<lambda>h. Map.empty)\<rparr>)) ''post:abc'' = None"
  by code_simp

section \<open>Properties of \<open>unique_sheets\<close>\<close>

lemma find_append_first:
  "List.find P (xs @ ys) = (case List.find P xs of None \<Rightarrow> List.find P ys | Some x \<Rightarrow> Some x)"
  by (induction xs) auto

lemma find_sorted_least:
  "sorted (map k l) \<Longrightarrow> List.find P l = Some q \<Longrightarrow> p \<in> set l \<Longrightarrow> P p \<Longrightarrow> k q \<le> k p"
proof (induction l)
  case Nil
  then show ?case by simp
next
  case (Cons a l)
  show ?case
  proof (cases "P a")
    case True
    with Cons.prems show ?thesis by auto
  next
    case False
    with Cons.prems have "List.find P l = Some q" "p \<in> set l" "sorted (map k l)" by auto
    from Cons.IH[OF this(3) this(1) this(2) Cons.prems(4)] show ?thesis .
  qed
qed

lemma find_distinct_filter:
  "distinct (map f r) \<Longrightarrow> List.find (\<lambda>q. f q = y) r = Some q \<Longrightarrow>
     filter (\<lambda>q. f q = y) r = [q]"
proof (induction r)
  case Nil
  then show ?case by simp
next
  case (Cons a r)
  show ?case
  proof (cases "f a = y")
    case True
    with Cons.prems have "q = a" "y \<notin> f ` set r" by auto
    then have "filter (\<lambda>q. f q = y) r = []" by (auto simp: filter_empty_conv)
    with True \<open>q = a\<close> show ?thesis by simp
  next
    case False
    with Cons.prems Cons.IH show ?thesis by simp
  qed
qed

text \<open>
  The loop of \<open>unique_sheets\<close> keeps this relation between its two variables: the ids
  seen are the ids of the posts kept, each kept post has an id, and no id is kept twice.
\<close>

lemma unique_sheets_loop_inv:
  assumes "unique_sheets_loop xs seen acc = Inr r"
    and "distinct (map sheet_id acc)" "None \<notin> sheet_id ` set acc"
    and "seen = {x. Some x \<in> sheet_id ` set acc}"
  shows "distinct (map sheet_id r) \<and> None \<notin> sheet_id ` set r \<and> set r \<subseteq> set (acc @ xs) \<and>
     (\<forall>x. List.find (\<lambda>q. sheet_id q = Some x) r = List.find (\<lambda>q. sheet_id q = Some x) (acc @ xs))"
  using assms
proof (induction xs arbitrary: seen acc)
  case Nil
  then show ?case by simp
next
  case (Cons post rest)
  show ?case
  proof (cases "sheet_id post \<noteq> None \<and> the (sheet_id post) \<notin> seen")
    case True
    then obtain s where s: "sheet_id post = Some s" "s \<notin> seen" by auto
    with Cons.prems(1) have l:
      "unique_sheets_loop rest (insert s seen) (acc @ [post]) = Inr r" by simp
    from s Cons.prems(4) have ns: "Some s \<notin> sheet_id ` set acc" by simp
    have d: "distinct (map sheet_id (acc @ [post]))"
      using Cons.prems(2) ns s by simp
    have n: "None \<notin> sheet_id ` set (acc @ [post])"
      using Cons.prems(3) s by auto
    have e: "insert s seen = {x. Some x \<in> sheet_id ` set (acc @ [post])}"
      using Cons.prems(4) s by auto
    from Cons.IH[OF l d n e] show ?thesis by simp
  next
    case False
    with Cons.prems(1) have l: "unique_sheets_loop rest seen acc = Inr r"
      by (simp split: if_splits)
    note IH = Cons.IH[OF l Cons.prems(2) Cons.prems(3) Cons.prems(4)]
    have f: "List.find (\<lambda>q. sheet_id q = Some x) (acc @ post # rest)
           = List.find (\<lambda>q. sheet_id q = Some x) (acc @ rest)" for x
    proof (cases "sheet_id post = Some x")
      case True
      with False have "x \<in> seen" by simp
      with Cons.prems(4) have "Some x \<in> sheet_id ` set acc" by simp
      then have "List.find (\<lambda>q. sheet_id q = Some x) acc \<noteq> None"
        by (auto simp: find_None_iff)
      then show ?thesis by (auto simp: find_append_first)
    next
      case False
      then show ?thesis
        by (cases "List.find (\<lambda>q. sheet_id q = Some x) acc") (simp_all add: find_append_first)
    qed
    from IH f show ?thesis by auto
  qed
qed

lemma unique_sheets_loop_total:
  "None \<notin> author ` set xs \<Longrightarrow> \<exists>r. unique_sheets_loop xs seen acc = Inr r"
proof (induction xs arbitrary: seen acc)
  case Nil
  then show ?case by simp
next
  case (Cons post rest)
  then have a: "author post \<noteq> None" and r: "None \<notin> author ` set rest" by auto
  from Cons.IH[OF r] a show ?case by auto
qed

lemma unique_sheets_char:
  assumes "unique_sheets xs = Inr r"
  shows "distinct (map sheet_id r) \<and> None \<notin> sheet_id ` set r \<and> set r \<subseteq> set xs \<and>
     (\<forall>x. List.find (\<lambda>q. sheet_id q = Some x) r = List.find (\<lambda>q. sheet_id q = Some x) xs)"
  using unique_sheets_loop_inv[of xs "{}" "[]" r] assms by (simp add: unique_sheets_def)


lemma sort_created_desc_props:
  "set (sort_created_desc ps) = set ps \<and> sorted (map (\<lambda>x. - created x) (sort_created_desc ps))"
  by (simp add: sort_created_desc_def)

lemma find_filter_conj:
  "List.find P (filter Q l) = List.find (\<lambda>y. P y \<and> Q y) l"
  by (induction l) auto

lemma find_conj_first:
  "List.find P l = Some q \<Longrightarrow> Q q \<Longrightarrow> List.find (\<lambda>y. P y \<and> Q y) l = Some q"
  by (induction l) (auto split: if_splits)

text \<open>
  The sort is stable: among the posts created at the same time, the first with a given
  property in the sorted list is the first with it in the list that was sorted.
\<close>

lemma sort_created_desc_stable:
  assumes "List.find P (sort_created_desc ps) = Some q"
  shows "List.find (\<lambda>y. P y \<and> created y = created q) ps = Some q"
proof -
  let ?f = "\<lambda>x. - created x"
  let ?Q = "\<lambda>y. ?f y = ?f q"
  have "List.find (\<lambda>y. P y \<and> ?Q y) ps = List.find P (filter ?Q ps)"
    by (simp only: find_filter_conj)
  also have "filter ?Q ps = filter ?Q (sort_key ?f ps)"
    by (simp only: sort_key_stable)
  also have "List.find P (filter ?Q (sort_key ?f ps)) = List.find (\<lambda>y. P y \<and> ?Q y) (sort_key ?f ps)"
    by (simp only: find_filter_conj)
  also have "\<dots> = Some q"
    using assms by (intro find_conj_first) (simp_all add: sort_created_desc_def)
  finally show ?thesis by simp
qed

text \<open>
  Claim C8, as amended. When the posts all have an author, as the posts returned by
  \<open>parse_submissions\<close> do, \<open>unique_sheets\<close> on the posts sorted by descending creation
  time returns a list with exactly one entry for every document id some post has: the
  first post with that id in the sorted list. Its creation time is the latest among the
  posts with that id, and among the posts with that id created at that time it is the
  one that comes first in the list as parsed. The other posts with that id are dropped.
  In the witness two posts share the latest time, and the one parsed first is kept.
\<close>

theorem unique_sheets_keeps_latest:
  assumes "None \<notin> author ` set ps" and "p \<in> set ps" and "sheet_id p = Some x"
  shows "\<exists>us q. unique_sheets (sort_created_desc ps) = Inr us \<and>
           filter (\<lambda>q. sheet_id q = Some x) us = [q] \<and> q \<in> set ps \<and>
           List.find (\<lambda>q. sheet_id q = Some x) (sort_created_desc ps) = Some q \<and>
           (\<forall>p' \<in> set ps. sheet_id p' = Some x \<longrightarrow> created p' \<le> created q) \<and>
           List.find (\<lambda>p'. sheet_id p' = Some x \<and> created p' = created q) ps = Some q"
proof -
  let ?l = "sort_created_desc ps"
  let ?P = "\<lambda>q. sheet_id q = Some x"
  note sp = sort_created_desc_props[of ps]
  from assms(1) sp have "None \<notin> author ` set ?l" by simp
  from unique_sheets_loop_total[OF this, of "{}" "[]"] obtain us where
    us: "unique_sheets ?l = Inr us" by (auto simp: unique_sheets_def)
  note ch = unique_sheets_char[OF us]
  from assms(2,3) sp have "\<exists>y. y \<in> set ?l \<and> ?P y" by auto
  then have "List.find ?P ?l \<noteq> None" by (simp add: find_None_iff)
  then obtain q where q: "List.find ?P ?l = Some q" by auto
  with ch have fu: "List.find ?P us = Some q" by simp
  from ch have "distinct (map sheet_id us)" by simp
  from find_distinct_filter[OF this fu] have one: "filter ?P us = [q]" .
  from q have "q \<in> set ?l" by (auto simp: find_Some_iff)
  with sp have qin: "q \<in> set ps" by simp
  have mx: "\<forall>p' \<in> set ps. sheet_id p' = Some x \<longrightarrow> created p' \<le> created q"
  proof (intro ballI impI)
    fix p' assume "p' \<in> set ps" "sheet_id p' = Some x"
    with sp have "p' \<in> set ?l" "?P p'" by simp_all
    from find_sorted_least[of "\<lambda>x. - created x" ?l ?P q p', OF _ q this] sp
    show "created p' \<le> created q" by simp
  qed
  note st = sort_created_desc_stable[OF q]
  from us one qin q mx st show ?thesis by blast
qed

theorem unique_sheets_keeps_latest_witness:
  "None \<notin> author ` set
      [\<lparr>id_sheet_post = ''a1'', title = ''Old post'', created = 100,
        shortlink = ''https://redd.it/a1'', num_comments = 0, score = 1,
        author = Some \<lparr>name = ''u1'', flair = 0, author_flair_text = None\<rparr>,
        sheet_id = Some ''X'', sheet_url = Some ''https://docs.google.com/spreadsheets/d/X'',
        sheet_dl_date = None, sheet_raw = None\<rparr>,
       \<lparr>id_sheet_post = ''b2'', title = ''New post'', created = 200,
        shortlink = ''https://redd.it/b2'', num_comments = 0, score = 1,
        author = Some \<lparr>name = ''u1'', flair = 0, author_flair_text = None\<rparr>,
        sheet_id = Some ''X'', sheet_url = Some ''https://docs.google.com/spreadsheets/d/X'',
        sheet_dl_date = None, sheet_raw = None\<rparr>,
       \<lparr>id_sheet_post = ''c3'', title = ''Newer post'', created = 200,
        shortlink = ''https://redd.it/c3'', num_comments = 0, score = 1,
        author = Some \<lparr>name = ''u1'', flair = 0, author_flair_text = None\<rparr>,
        sheet_id = Some ''X'', sheet_url = Some ''https://docs.google.com/spreadsheets/d/X'',
        sheet_dl_date = None, sheet_raw = None\<rparr>] \<and>
   unique_sheets (sort_created_desc
      [\<lparr>id_sheet_post = ''a1'', title = ''Old post'', created = 100,
        shortlink = ''https://redd.it/a1'', num_comments = 0, score = 1,
        author = Some \<lparr>name = ''u1'', flair = 0, author_flair_text = None\<rparr>,
        sheet_id = Some ''X'', sheet_url = Some ''https://docs.google.com/spreadsheets/d/X'',
        sheet_dl_date = None, sheet_raw = None\<rparr>,
       \<lparr>id_sheet_post = ''b2'', title = ''New post'', created = 200,
        shortlink = ''https://redd.it/b2'', num_comments = 0, score = 1,
        author = Some \<lparr>name = ''u1'', flair = 0, author_flair_text = None\<rparr>,
        sheet_id = Some ''X'', sheet_url = Some ''https://docs.google.com/spreadsheets/d/X'',
        sheet_dl_date = None, sheet_raw = None\<rparr>,
       \<lparr>id_sheet_post = ''c3'', title = ''Newer post'', created = 200,
        shortlink = ''https://redd.it/c3'', num_comments = 0, score = 1,
        author = Some \<lparr>name = ''u1'', flair = 0, author_flair_text = None\<rparr>,
        sheet_id = Some ''X'', sheet_url = Some ''https://docs.google.com/spreadsheets/d/X'',
        sheet_dl_date = None, sheet_raw = None\<rparr>]) =
   Inr [\<lparr>id_sheet_post = ''b2'', title = ''New post'', created = 200,
        shortlink = ''https://redd.it/b2'', num_comments = 0, score = 1,
        author = Some \<lparr>name = ''u1'', flair = 0, author_flair_text = None\<rparr>,
        sheet_id = Some ''X'', sheet_url = Some ''https://docs.google.com/spreadsheets/d/X'',
        sheet_dl_date = None, sheet_raw = None\<rparr>] \<and>
   (\<exists>us q. unique_sheets (sort_created_desc
      [\<lparr>id_sheet_post = ''a1'', title = ''Old post'', created = 100,
        shortlink = ''https://redd.it/a1'', num_comments = 0, score = 1,
        author = Some \<lparr>name = ''u1'', flair = 0, author_flair_text = None\<rparr>,
        sheet_id = Some ''X'', sheet_url = Some ''https://docs.google.com/spreadsheets/d/X'',
        sheet_dl_date = None, sheet_raw = None\<rparr>,
       \<lparr>id_sheet_post = ''b2'', title = ''New post'', created = 200,
        shortlink = ''https://redd.it/b2'', num_comments = 0, score = 1,
        author = Some \<lparr>name = ''u1'', flair = 0, author_flair_text = None\<rparr>,
        sheet_id = Some ''X'', sheet_url = Some ''https://docs.google.com/spreadsheets/d/X'',
        sheet_dl_date = None, sheet_raw = None\<rparr>,
       \<lparr>id_sheet_post = ''c3'', title = ''Newer post'', created = 200,
        shortlink = ''https://redd.it/c3'', num_comments = 0, score = 1,
        author = Some \<lparr>name = ''u1'', flair = 0, author_flair_text = None\<rparr>,
        sheet_id = Some ''X'', sheet_url = Some ''https://docs.google.com/spreadsheets/d/X'',
        sheet_dl_date = None, sheet_raw = None\<rparr>]) = Inr us \<and>
      filter (\<lambda>q. sheet_id q = Some ''X'') us = [q] \<and>
      q \<in> set
      [\<lparr>id_sheet_post = ''a1'', title = ''Old post'', created = 100,
        shortlink = ''https://redd.it/a1'', num_comments = 0, score = 1,
        author = Some \<lparr>name = ''u1'', flair = 0, author_flair_text = None\<rparr>,
        sheet_id = Some ''X'', sheet_url = Some ''https://docs.google.com/spreadsheets/d/X'',
        sheet_dl_date = None, sheet_raw = None\<rparr>,
       \<lparr>id_sheet_post = ''b2'', title = ''New post'', created = 200,
        shortlink = ''https://redd.it/b2'', num_comments = 0, score = 1,
        author = Some \<lparr>name = ''u1'', flair = 0, author_flair_text = None\<rparr>,
        sheet_id = Some ''X'', sheet_url = Some ''https://docs.google.com/spreadsheets/d/X'',
        sheet_dl_date = None, sheet_raw = None\<rparr>,
       \<lparr>id_sheet_post = ''c3'', title = ''Newer post'', created = 200,
        shortlink = ''https://redd.it/c3'', num_comments = 0, score = 1,
        author = Some \<lparr>name = ''u1'', flair = 0, author_flair_text = None\<rparr>,
        sheet_id = Some ''X'', sheet_url = Some ''https://docs.google.com/spreadsheets/d/X'',
        sheet_dl_date = None, sheet_raw = None\<rparr>] \<and>
      List.find (\<lambda>q. sheet_id q = Some ''X'') (sort_created_desc
      [\<lparr>id_sheet_post = ''a1'', title = ''Old post'', created = 100,
        shortlink = ''https://redd.it/a1'', num_comments = 0, score = 1,
        author = Some \<lparr>name = ''u1'', flair = 0, author_flair_text = None\<rparr>,
        sheet_id = Some ''X'', sheet_url = Some ''https://docs.google.com/spreadsheets/d/X'',
        sheet_dl_date = None, sheet_raw = None\<rparr>,
       \<lparr>id_sheet_post = ''b2'', title = ''New post'', created = 200,
        shortlink = ''https://redd.it/b2'', num_comments = 0, score = 1,
        author = Some \<lparr>name = ''u1'', flair = 0, author_flair_text = None\<rparr>,
        sheet_id = Some ''X'', sheet_url = Some ''https://docs.google.com/spreadsheets/d/X'',
        sheet_dl_date = None, sheet_raw = None\<rparr>,
       \<lparr>id_sheet_post = ''c3'', title = ''Newer post'', created = 200,
        shortlink = ''https://redd.it/c3'', num_comments = 0, score = 1,
        author = Some \<lparr>name = ''u1'', flair = 0, author_flair_text = None\<rparr>,
        sheet_id = Some ''X'', sheet_url = Some ''https://docs.google.com/spreadsheets/d/X'',
        sheet_dl_date = None, sheet_raw = None\<rparr>]) = Some q \<and>
      (\<forall>p' \<in> set
      [\<lparr>id_sheet_post = ''a1'', title = ''Old post'', created = 100,
        shortlink = ''https://redd.it/a1'', num_comments = 0, score = 1,
        author = Some \<lparr>name = ''u1'', flair = 0, author_flair_text = None\<rparr>,
        sheet_id = Some ''X'', sheet_url = Some ''https://docs.google.com/spreadsheets/d/X'',
        sheet_dl_date = None, sheet_raw = None\<rparr>,
       \<lparr>id_sheet_post = ''b2'', title = ''New post'', created = 200,
        shortlink = ''https://redd.it/b2'', num_comments = 0, score = 1,
        author = Some \<lparr>name = ''u1'', flair = 0, author_flair_text = None\<rparr>,
        sheet_id = Some ''X'', sheet_url = Some ''https://docs.google.com/spreadsheets/d/X'',
        sheet_dl_date = None, sheet_raw = None\<rparr>,
       \<lparr>id_sheet_post = ''c3'', title = ''Newer post'', created = 200,
        shortlink = ''https://redd.it/c3'', num_comments = 0, score = 1,
        author = Some \<lparr>name = ''u1'', flair = 0, author_flair_text = None\<rparr>,
        sheet_id = Some ''X'', sheet_url = Some ''https://docs.google.com/spreadsheets/d/X'',
        sheet_dl_date = None, sheet_raw = None\<rparr>]. sheet_id p' = Some ''X'' \<longrightarrow> created p' \<le> created q) \<and>
      List.find (\<lambda>p'. sheet_id p' = Some ''X'' \<and> created p' = created q)
      [\<lparr>id_sheet_post = ''a1'', title = ''Old post'', created = 100,
        shortlink = ''https://redd.it/a1'', num_comments = 0, score = 1,
        author = Some \<lparr>name = ''u1'', flair = 0, author_flair_text = None\<rparr>,
        sheet_id = Some ''X'', sheet_url = Some ''https://docs.google.com/spreadsheets/d/X'',
        sheet_dl_date = None, sheet_raw = None\<rparr>,
       \<lparr>id_sheet_post = ''b2'', title = ''New post'', created = 200,
        shortlink = ''https://redd.it/b2'', num_comments = 0, score = 1,
        author = Some \<lparr>name = ''u1'', flair = 0, author_flair_text = None\<rparr>,
        sheet_id = Some ''X'', sheet_url = Some ''https://docs.google.com/spreadsheets/d/X'',
        sheet_dl_date = None, sheet_raw = None\<rparr>,
       \<lparr>id_sheet_post = ''c3'', title = ''Newer post'', created = 200,
        shortlink = ''https://redd.it/c3'', num_comments = 0, score = 1,
        author = Some \<lparr>name = ''u1'', flair = 0, author_flair_text = None\<rparr>,
        sheet_id = Some ''X'', sheet_url = Some ''https://docs.google.com/spreadsheets/d/X'',
        sheet_dl_date = None, sheet_raw = None\<rparr>] = Some q)"
proof -
  let ?A = "\<lparr>id_sheet_post = ''a1'', title = ''Old post'', created = 100,
        shortlink = ''https://redd.it/a1'', num_comments = 0, score = 1,
        author = Some \<lparr>name = ''u1'', flair = 0, author_flair_text = None\<rparr>,
        sheet_id = Some ''X'', sheet_url = Some ''https://docs.google.com/spreadsheets/d/X'',
        sheet_dl_date = None, sheet_raw = None\<rparr>"
  let ?B = "\<lparr>id_sheet_post = ''b2'', title = ''New post'', created = 200,
        shortlink = ''https://redd.it/b2'', num_comments = 0, score = 1,
        author = Some \<lparr>name = ''u1'', flair = 0, author_flair_text = None\<rparr>,
        sheet_id = Some ''X'', sheet_url = Some ''https://docs.google.com/spreadsheets/d/X'',
        sheet_dl_date = None, sheet_raw = None\<rparr>"
  let ?C = "\<lparr>id_sheet_post = ''c3'', title = ''Newer post'', created = 200,
        shortlink = ''https://redd.it/c3'', num_comments = 0, score = 1,
        author = Some \<lparr>name = ''u1'', flair = 0, author_flair_text = None\<rparr>,
        sheet_id = Some ''X'', sheet_url = Some ''https://docs.google.com/spreadsheets/d/X'',
        sheet_dl_date = None, sheet_raw = None\<rparr>"
  have h1: "None \<notin> author ` set [?A, ?B, ?C]" by simp
  have h2: "?A \<in> set [?A, ?B, ?C]" by simp
  have h3: "sheet_id ?A = Some ''X''" by simp
  have e: "unique_sheets (sort_created_desc [?A, ?B, ?C]) = Inr [?B]" by code_simp
  from h1 e unique_sheets_keeps_latest[OF h1 h2 h3] show ?thesis by (intro conjI)
qed

text \<open>
  The claim says that the post with the later creation time is dropped. Of two posts with
  the same document id, created at 100 and at 200, the one created at 200 is kept.
\<close>

theorem unique_sheets_later_post_kept_counterexample:
  "unique_sheets (sort_created_desc
      [\<lparr>id_sheet_post = ''a1'', title = ''Old post'', created = 100,
        shortlink = ''https://redd.it/a1'', num_comments = 0, score = 1,
        author = Some \<lparr>name = ''u1'', flair = 0, author_flair_text = None\<rparr>,
        sheet_id = Some ''X'', sheet_url = Some ''https://docs.google.com/spreadsheets/d/X'',
        sheet_dl_date = None, sheet_raw = None\<rparr>,
       \<lparr>id_sheet_post = ''b2'', title = ''New post'', created = 200,
        shortlink = ''https://redd.it/b2'', num_comments = 0, score = 1,
        author = Some \<lparr>name = ''u1'', flair = 0, author_flair_text = None\<rparr>,
        sheet_id = Some ''X'', sheet_url = Some ''https://docs.google.com/spreadsheets/d/X'',
        sheet_dl_date = None, sheet_raw = None\<rparr>]) =
   Inr [\<lparr>id_sheet_post = ''b2'', title = ''New post'', created = 200,
        shortlink = ''https://redd.it/b2'', num_comments = 0, score = 1,
        author = Some \<lparr>name = ''u1'', flair = 0, author_flair_text = None\<rparr>,
        sheet_id = Some ''X'', sheet_url = Some ''https://docs.google.com/spreadsheets/d/X'',
        sheet_dl_date = None, sheet_raw = None\<rparr>] \<and>
   created \<lparr>id_sheet_post = ''a1'', title = ''Old post'', created = 100,
        shortlink = ''https://redd.it/a1'', num_comments = 0, score = 1,
        author = Some \<lparr>name = ''u1'', flair = 0, author_flair_text = None\<rparr>,
        sheet_id = Some ''X'', sheet_url = Some ''https://docs.google.com/spreadsheets/d/X'',
        sheet_dl_date = None, sheet_raw = None\<rparr>
   < created \<lparr>id_sheet_post = ''b2'', title = ''New post'', created = 200,
        shortlink = ''https://redd.it/b2'', num_comments = 0, score = 1,
        author = Some \<lparr>name = ''u1'', flair = 0, author_flair_text = None\<rparr>,
        sheet_id = Some ''X'', sheet_url = Some ''https://docs.google.com/spreadsheets/d/X'',
        sheet_dl_date = None, sheet_raw = None\<rparr>"
  by code_simp

section \<open>Properties of the downloads of a run\<close>

text \<open>One iteration of the loop of \<open>add_sheet_data\<close>.\<close>

lemma add_sheet_data_step:
  assumes "add_sheet_data_loop w c (sheet # rest) items tried = (res, tried')"
  shows "add_sheet_data_loop w c rest items tried = (res, tried') \<or>
     (res = Inl TypeError \<and> tried' = tried) \<or>
     (\<exists>sid. sheet_id sheet = Some sid \<and> \<not> check_cache c sid \<and>
        (add_sheet_data_loop w c rest items (tried @ [sid]) = (res, tried') \<or>
         (\<exists>it. sheet_id it = Some sid \<and>
            add_sheet_data_loop w c rest (items @ [it]) (tried @ [sid]) = (res, tried'))))"
proof (cases "sheet_id sheet")
  case None
  with assms show ?thesis by (cases "check_cache c ''None''") auto
next
  case (Some sid)
  show ?thesis
  proof (cases "check_cache c sid")
    case True
    with Some assms show ?thesis by simp
  next
    case nc: False
    show ?thesis
    proof (cases "download_sheet w sid")
      case None
      with Some nc assms have
        "add_sheet_data_loop w c rest items (tried @ [sid]) = (res, tried')" by simp
      with Some nc show ?thesis by blast
    next
      case (Some df)
      define it where "it = \<lparr>id_sheet_post = id_sheet_post sheet, title = title sheet,
                               created = created sheet, shortlink = shortlink sheet,
                               num_comments = 0, score = 0, author = author sheet,
                               sheet_id = sheet_id sheet, sheet_url = sheet_url sheet,
                               sheet_dl_date = Some (now w), sheet_raw = Some df\<rparr>"
      have i: "sheet_id it = Some sid" using \<open>sheet_id sheet = Some sid\<close> by (simp add: it_def)
      from Some \<open>sheet_id sheet = Some sid\<close> nc assms have
        "add_sheet_data_loop w c rest (items @ [it]) (tried @ [sid]) = (res, tried')"
        by (simp add: it_def)
      with i \<open>sheet_id sheet = Some sid\<close> nc show ?thesis by blast
    qed
  qed
qed

lemma add_sheet_data_loop_distinct:
  "add_sheet_data_loop w c xs items tried = (res, tried') \<Longrightarrow>
   distinct (map sheet_id xs) \<Longrightarrow> distinct tried \<Longrightarrow>
   (\<forall>s \<in> set tried. Some s \<notin> sheet_id ` set xs) \<Longrightarrow> distinct tried'"
proof (induction xs arbitrary: items tried)
  case Nil
  then show ?case by simp
next
  case (Cons sheet rest)
  from Cons.prems(2) have dr: "distinct (map sheet_id rest)"
    and nr: "sheet_id sheet \<notin> sheet_id ` set rest" by simp_all
  from Cons.prems(4) have tr: "\<forall>s \<in> set tried. Some s \<notin> sheet_id ` set rest"
    and ts: "\<forall>s \<in> set tried. Some s \<noteq> sheet_id sheet" by auto
  from add_sheet_data_step[OF Cons.prems(1)] show ?case
  proof (elim disjE exE conjE)
    assume "add_sheet_data_loop w c rest items tried = (res, tried')"
    from Cons.IH[OF this dr Cons.prems(3) tr] show ?thesis .
  next
    assume "tried' = tried"
    with Cons.prems(3) show ?thesis by simp
  next
    fix sid
    assume s: "sheet_id sheet = Some sid"
      and l: "add_sheet_data_loop w c rest items (tried @ [sid]) = (res, tried')"
    from s ts Cons.prems(3) have d: "distinct (tried @ [sid])" by auto
    from s tr nr have t: "\<forall>s \<in> set (tried @ [sid]). Some s \<notin> sheet_id ` set rest" by auto
    from Cons.IH[OF l dr d t] show ?thesis .
  next
    fix sid it
    assume s: "sheet_id sheet = Some sid"
      and l: "add_sheet_data_loop w c rest (items @ [it]) (tried @ [sid]) = (res, tried')"
    from s ts Cons.prems(3) have d: "distinct (tried @ [sid])" by auto
    from s tr nr have t: "\<forall>s \<in> set (tried @ [sid]). Some s \<notin> sheet_id ` set rest" by auto
    from Cons.IH[OF l dr d t] show ?thesis .
  qed
qed

lemma add_sheet_data_loop_uncached:
  "add_sheet_data_loop w c xs items tried = (res, tried') \<Longrightarrow> s \<in> set tried' \<Longrightarrow>
   s \<in> set tried \<or> \<not> check_cache c s"
proof (induction xs arbitrary: items tried)
  case Nil
  then show ?case by simp
next
  case (Cons sheet rest)
  from add_sheet_data_step[OF Cons.prems(1)] show ?case
  proof (elim disjE exE conjE)
    assume "add_sheet_data_loop w c rest items tried = (res, tried')"
    from Cons.IH[OF this Cons.prems(2)] show ?thesis .
  next
    assume "tried' = tried"
    with Cons.prems(2) show ?thesis by simp
  next
    fix sid
    assume n: "\<not> check_cache c sid"
      and l: "add_sheet_data_loop w c rest items (tried @ [sid]) = (res, tried')"
    from Cons.IH[OF l Cons.prems(2)] n show ?thesis by auto
  next
    fix sid it
    assume n: "\<not> check_cache c sid"
      and l: "add_sheet_data_loop w c rest (items @ [it]) (tried @ [sid]) = (res, tried')"
    from Cons.IH[OF l Cons.prems(2)] n show ?thesis by auto
  qed
qed

lemma add_sheet_data_loop_items:
  "add_sheet_data_loop w c xs items tried = (Inr r, tried') \<Longrightarrow> p \<in> set r \<Longrightarrow>
   p \<in> set items \<or> sheet_id p \<noteq> None"
proof (induction xs arbitrary: items tried)
  case Nil
  then show ?case by simp
next
  case (Cons sheet rest)
  from add_sheet_data_step[OF Cons.prems(1)] show ?case
  proof (elim disjE exE conjE)
    assume "add_sheet_data_loop w c rest items tried = (Inr r, tried')"
    from Cons.IH[OF this Cons.prems(2)] show ?thesis .
  next
    assume "Inr r = Inl TypeError"
    then show ?thesis by simp
  next
    fix sid
    assume l: "add_sheet_data_loop w c rest items (tried @ [sid]) = (Inr r, tried')"
    from Cons.IH[OF l Cons.prems(2)] show ?thesis .
  next
    fix sid it
    assume i: "sheet_id it = Some sid"
      and l: "add_sheet_data_loop w c rest (items @ [it]) (tried @ [sid]) = (Inr r, tried')"
    from Cons.IH[OF l Cons.prems(2)] i show ?thesis by auto
  qed
qed

lemma hashes_hset_mono:
  "hashes c h k \<noteq> None \<Longrightarrow> hashes (hset c h' k' v) h k \<noteq> None"
  by (auto simp: hset_def)

lemma cache_sheets_mono:
  "hashes c h k \<noteq> None \<Longrightarrow> hashes (cache_sheets c its) h k \<noteq> None"
proof (induction its arbitrary: c)
  case Nil
  then show ?case by simp
next
  case (Cons item rest)
  from Cons.prems have "hashes (hset c ''sheets''
          (''sheet:'' @ (case sheet_id item of None \<Rightarrow> ''None'' | Some sid \<Rightarrow> sid)) item) h k
        \<noteq> None" by (rule hashes_hset_mono)
  from Cons.IH[OF this] show ?case by simp
qed

lemma cache_sheets_written:
  "p \<in> set its \<Longrightarrow> sheet_id p = Some sid \<Longrightarrow>
   hexists (cache_sheets c its) ''sheets'' (''sheet:'' @ sid)"
proof (induction its arbitrary: c)
  case Nil
  then show ?case by simp
next
  case (Cons item rest)
  show ?case
  proof (cases "p = item")
    case True
    with Cons.prems(2) have "hashes (hset c ''sheets''
          (''sheet:'' @ (case sheet_id item of None \<Rightarrow> ''None'' | Some sid \<Rightarrow> sid)) item)
          ''sheets'' (''sheet:'' @ sid) \<noteq> None"
      by (simp add: hset_def)
    from cache_sheets_mono[OF this, of rest] show ?thesis by (simp add: hexists_def)
  next
    case False
    with Cons.prems have "p \<in> set rest" by simp
    from Cons.IH[OF this Cons.prems(2)] show ?thesis by simp
  qed
qed


lemma sheet_query_cases:
  assumes "sheet_query w ext c ss = (res, c', tried)"
  shows "(tried = [] \<and> (\<exists>e. res = Inl e) \<and> (\<exists>pr. parse_submissions (fromtimestamp w) ext ss c = (pr, c'))) \<or>
     (\<exists>parsed c1 u ar.
        parse_submissions (fromtimestamp w) ext ss c = (Inr parsed, c1) \<and>
        unique_sheets (sort_created_desc parsed) = Inr u \<and>
        add_sheet_data w c1 u = (ar, tried) \<and>
        ((\<exists>e. ar = Inl e \<and> res = Inl e \<and> c' = c1) \<or>
         (\<exists>dl r. ar = Inr dl \<and> res = Inr r \<and> sheets_downloaded r = dl \<and>
            c' = cache_sheets c1 dl)))"
proof -
  obtain pr c1 where p: "parse_submissions (fromtimestamp w) ext ss c = (pr, c1)"
    by (cases "parse_submissions (fromtimestamp w) ext ss c") auto
  show ?thesis
  proof (cases pr)
    case (Inl e)
    with p assms have "tried = [] \<and> res = Inl e \<and> c' = c1" by (simp add: sheet_query_def)
    with p show ?thesis by blast
  next
    case (Inr parsed)
    show ?thesis
    proof (cases "unique_sheets (sort_created_desc parsed)")
      case (Inl e)
      with p Inr assms have "tried = [] \<and> res = Inl e \<and> c' = c1"
        by (simp add: sheet_query_def Let_def)
      with p show ?thesis by blast
    next
      case u: (Inr u)
      obtain ar t where a: "add_sheet_data w c1 u = (ar, t)"
        by (cases "add_sheet_data w c1 u") auto
      show ?thesis
      proof (cases ar)
        case (Inl e)
        with p Inr u a assms have "tried = t \<and> res = Inl e \<and> c' = c1"
          by (simp add: sheet_query_def Let_def)
        with p Inr u a Inl show ?thesis by blast
      next
        case dl: (Inr dl)
        with p Inr u a assms have
          "tried = t \<and> c' = cache_sheets c1 dl \<and>
           (\<exists>r. res = Inr r \<and> sheets_downloaded r = dl)"
          by (auto simp: sheet_query_def Let_def)
        with p Inr u a dl show ?thesis by blast
      qed
    qed
  qed
qed

lemma sheet_query_tried:
  assumes "sheet_query w ext c ss = (res, c', tried)"
  shows "distinct tried \<and> (\<forall>sid. hexists c ''sheets'' (''sheet:'' @ sid) \<longrightarrow> sid \<notin> set tried)"
proof -
  from sheet_query_cases[OF assms] have "tried = [] \<or>
     (\<exists>parsed c1 u ar.
        parse_submissions (fromtimestamp w) ext ss c = (Inr parsed, c1) \<and>
        unique_sheets (sort_created_desc parsed) = Inr u \<and>
        add_sheet_data w c1 u = (ar, tried))" by blast
  then show ?thesis
  proof (elim disjE exE conjE)
    assume "tried = []"
    then show ?thesis by simp
  next
    fix parsed c1 u ar
    assume p: "parse_submissions (fromtimestamp w) ext ss c = (Inr parsed, c1)"
      and u: "unique_sheets (sort_created_desc parsed) = Inr u"
      and a: "add_sheet_data w c1 u = (ar, tried)"
    from p have h: "hashes c1 = hashes c"
      using parse_submissions_loop_hashes[of "fromtimestamp w" ext ss c "[]" "Inr parsed" c1]
      by (simp add: parse_submissions_def)
    from a have l: "add_sheet_data_loop w c1 u [] [] = (ar, tried)"
      by (simp add: add_sheet_data_def)
    from unique_sheets_char[OF u] have d: "distinct (map sheet_id u)" by simp
    from add_sheet_data_loop_distinct[OF l d] have 1: "distinct tried" by simp
    have 2: "\<forall>sid. hexists c ''sheets'' (''sheet:'' @ sid) \<longrightarrow> sid \<notin> set tried"
    proof (intro allI impI notI)
      fix sid assume e: "hexists c ''sheets'' (''sheet:'' @ sid)" and t: "sid \<in> set tried"
      from add_sheet_data_loop_uncached[OF l t] have "\<not> check_cache c1 sid" by simp
      with e h show False by (simp add: check_cache_def hexists_def)
    qed
    from 1 2 show ?thesis ..
  qed
qed

lemma sheet_query_cached:
  assumes "sheet_query w ext c ss = (Inr r, c', tried)" and "p \<in> set (sheets_downloaded r)"
  shows "\<exists>sid. sheet_id p = Some sid \<and> hexists c' ''sheets'' (''sheet:'' @ sid)"
proof -
  from sheet_query_cases[OF assms(1)] obtain c1 u dl where
    a: "add_sheet_data w c1 u = (Inr dl, tried)" and s: "sheets_downloaded r = dl"
    and c: "c' = cache_sheets c1 dl" by auto
  from a have l: "add_sheet_data_loop w c1 u [] [] = (Inr dl, tried)"
    by (simp add: add_sheet_data_def)
  from assms(2) s have pin: "p \<in> set dl" by simp
  from add_sheet_data_loop_items[OF l pin] obtain sid where sid: "sheet_id p = Some sid"
    by auto
  from cache_sheets_written[OF pin sid, of c1] c sid show ?thesis by simp
qed

text \<open>
  Claim C1. In one run of \<open>sheet_query\<close> the ids \<open>download_sheet\<close> is called for are
  pairwise distinct, and none of them has an entry \<open>sheet:id\<close> in the hash \<open>sheets\<close> when
  the run starts. Every post the run reports as downloaded has a document id, the run
  leaves its entry in the hash, and no later run that starts from the cache this run
  left tries to download that id, whatever it is given.
\<close>

theorem sheet_query_downloads_once:
  assumes "sheet_query w ext c ss = (res, c', tried)"
  shows "distinct tried \<and>
     (\<forall>sid. hexists c ''sheets'' (''sheet:'' @ sid) \<longrightarrow> sid \<notin> set tried) \<and>
     (\<forall>r p. res = Inr r \<and> p \<in> set (sheets_downloaded r) \<longrightarrow>
        (\<exists>sid. sheet_id p = Some sid \<and> hexists c' ''sheets'' (''sheet:'' @ sid) \<and>
           (\<forall>w2 ext2 ss2. sid \<notin> set (snd (snd (sheet_query w2 ext2 c' ss2))))))"
proof -
  have 3: "\<exists>sid. sheet_id p = Some sid \<and> hexists c' ''sheets'' (''sheet:'' @ sid) \<and>
           (\<forall>w2 ext2 ss2. sid \<notin> set (snd (snd (sheet_query w2 ext2 c' ss2))))"
    if "res = Inr r" "p \<in> set (sheets_downloaded r)" for r p
  proof -
    from assms that(1) have q: "sheet_query w ext c ss = (Inr r, c', tried)" by simp
    from sheet_query_cached[OF q that(2)] obtain sid where
      sid: "sheet_id p = Some sid" "hexists c' ''sheets'' (''sheet:'' @ sid)" by blast
    have "sid \<notin> set (snd (snd (sheet_query w2 ext2 c' ss2)))" for w2 ext2 ss2
    proof -
      have "sheet_query w2 ext2 c' ss2 = (fst (sheet_query w2 ext2 c' ss2),
          fst (snd (sheet_query w2 ext2 c' ss2)), snd (snd (sheet_query w2 ext2 c' ss2)))"
        by simp
      from sheet_query_tried[OF this] sid(2) show ?thesis by simp
    qed
    with sid show ?thesis by blast
  qed
  from sheet_query_tried[OF assms] 3 show ?thesis by blast
qed


theorem sheet_query_downloads_once_witness:
  "snd (snd (sheet_query
      \<lparr>csv_export = (\<lambda>sid. Fetched \<lparr>columns = [''Mold''], rows = []\<rparr>),
        api_calls = (\<lambda>sid n. Raised ''unused''), now = 1000,
        fromtimestamp = (\<lambda>t. t)\<rparr>
      extract_id_from_url
      \<lparr>kv = Map.empty,
        hashes = (\<lambda>h k. if h = ''sheets'' \<and> k = ''sheet:Y'' then Some
          \<lparr>id_sheet_post = ''p0'', title = ''Earlier'', created = 50,
             shortlink = ''https://redd.it/p0'', num_comments = 0, score = 0,
             author = None, sheet_id = Some ''Y'', sheet_url = Some ''https://docs.google.com/spreadsheets/d/Y/edit'',
             sheet_dl_date = Some 60, sheet_raw = Some \<lparr>columns = [''Mold''], rows = []\<rparr>\<rparr> else None)\<rparr>
      [\<lparr>post_id = ''p1'',
        post_title = ''Discs https://docs.google.com/spreadsheets/d/X/edit'',
        post_selftext = [], post_url = ''https://reddit.com/p1'', post_created_utc = 100,
        post_shortlink = ''https://redd.it/p1'', post_num_comments = 0, post_score = 1,
        post_author = Some ''u1'', post_author_flair_text = None, post_comments = []\<rparr>,
       \<lparr>post_id = ''p2'',
        post_title = ''Discs https://docs.google.com/spreadsheets/d/X/edit'',
        post_selftext = [], post_url = ''https://reddit.com/p2'', post_created_utc = 200,
        post_shortlink = ''https://redd.it/p2'', post_num_comments = 0, post_score = 1,
        post_author = Some ''u1'', post_author_flair_text = None, post_comments = []\<rparr>,
       \<lparr>post_id = ''p3'',
        post_title = ''Discs https://docs.google.com/spreadsheets/d/Y/edit'',
        post_selftext = [], post_url = ''https://reddit.com/p3'', post_created_utc = 300,
        post_shortlink = ''https://redd.it/p3'', post_num_comments = 0, post_score = 1,
        post_author = Some ''u1'', post_author_flair_text = None, post_comments = []\<rparr>])) = [''X''] \<and>
   hexists
      \<lparr>kv = Map.empty,
        hashes = (\<lambda>h k. if h = ''sheets'' \<and> k = ''sheet:Y'' then Some
          \<lparr>id_sheet_post = ''p0'', title = ''Earlier'', created = 50,
             shortlink = ''https://redd.it/p0'', num_comments = 0, score = 0,
             author = None, sheet_id = Some ''Y'', sheet_url = Some ''https://docs.google.com/spreadsheets/d/Y/edit'',
             sheet_dl_date = Some 60, sheet_raw = Some \<lparr>columns = [''Mold''], rows = []\<rparr>\<rparr> else None)\<rparr> ''sheets'' (''sheet:'' @ ''Y'') \<and>
   distinct (snd (snd (sheet_query
      \<lparr>csv_export = (\<lambda>sid. Fetched \<lparr>columns = [''Mold''], rows = []\<rparr>),
        api_calls = (\<lambda>sid n. Raised ''unused''), now = 1000,
        fromtimestamp = (\<lambda>t. t)\<rparr>
      extract_id_from_url
      \<lparr>kv = Map.empty,
        hashes = (\<lambda>h k. if h = ''sheets'' \<and> k = ''sheet:Y'' then Some
          \<lparr>id_sheet_post = ''p0'', title = ''Earlier'', created = 50,
             shortlink = ''https://redd.it/p0'', num_comments = 0, score = 0,
             author = None, sheet_id = Some ''Y'', sheet_url = Some ''https://docs.google.com/spreadsheets/d/Y/edit'',
             sheet_dl_date = Some 60, sheet_raw = Some \<lparr>columns = [''Mold''], rows = []\<rparr>\<rparr> else None)\<rparr>
      [\<lparr>post_id = ''p1'',
        post_title = ''Discs https://docs.google.com/spreadsheets/d/X/edit'',
        post_selftext = [], post_url = ''https://reddit.com/p1'', post_created_utc = 100,
        post_shortlink = ''https://redd.it/p1'', post_num_comments = 0, post_score = 1,
        post_author = Some ''u1'', post_author_flair_text = None, post_comments = []\<rparr>,
       \<lparr>post_id = ''p2'',
        post_title = ''Discs https://docs.google.com/spreadsheets/d/X/edit'',
        post_selftext = [], post_url = ''https://reddit.com/p2'', post_created_utc = 200,
        post_shortlink = ''https://redd.it/p2'', post_num_comments = 0, post_score = 1,
        post_author = Some ''u1'', post_author_flair_text = None, post_comments = []\<rparr>,
       \<lparr>post_id = ''p3'',
        post_title = ''Discs https://docs.google.com/spreadsheets/d/Y/edit'',
        post_selftext = [], post_url = ''https://reddit.com/p3'', post_created_utc = 300,
        post_shortlink = ''https://redd.it/p3'', post_num_comments = 0, post_score = 1,
        post_author = Some ''u1'', post_author_flair_text = None, post_comments = []\<rparr>]))) \<and>
   ''Y'' \<notin> set (snd (snd (sheet_query
      \<lparr>csv_export = (\<lambda>sid. Fetched \<lparr>columns = [''Mold''], rows = []\<rparr>),
        api_calls = (\<lambda>sid n. Raised ''unused''), now = 1000,
        fromtimestamp = (\<lambda>t. t)\<rparr>
      extract_id_from_url
      \<lparr>kv = Map.empty,
        hashes = (\<lambda>h k. if h = ''sheets'' \<and> k = ''sheet:Y'' then Some
          \<lparr>id_sheet_post = ''p0'', title = ''Earlier'', created = 50,
             shortlink = ''https://redd.it/p0'', num_comments = 0, score = 0,
             author = None, sheet_id = Some ''Y'', sheet_url = Some ''https://docs.google.com/spreadsheets/d/Y/edit'',
             sheet_dl_date = Some 60, sheet_raw = Some \<lparr>columns = [''Mold''], rows = []\<rparr>\<rparr> else None)\<rparr>
      [\<lparr>post_id = ''p1'',
        post_title = ''Discs https://docs.google.com/spreadsheets/d/X/edit'',
        post_selftext = [], post_url = ''https://reddit.com/p1'', post_created_utc = 100,
        post_shortlink = ''https://redd.it/p1'', post_num_comments = 0, post_score = 1,
        post_author = Some ''u1'', post_author_flair_text = None, post_comments = []\<rparr>,
       \<lparr>post_id = ''p2'',
        post_title = ''Discs https://docs.google.com/spreadsheets/d/X/edit'',
        post_selftext = [], post_url = ''https://reddit.com/p2'', post_created_utc = 200,
        post_shortlink = ''https://redd.it/p2'', post_num_comments = 0, post_score = 1,
        post_author = Some ''u1'', post_author_flair_text = None, post_comments = []\<rparr>,
       \<lparr>post_id = ''p3'',
        post_title = ''Discs https://docs.google.com/spreadsheets/d/Y/edit'',
        post_selftext = [], post_url = ''https://reddit.com/p3'', post_created_utc = 300,
        post_shortlink = ''https://redd.it/p3'', post_num_comments = 0, post_score = 1,
        post_author = Some ''u1'', post_author_flair_text = None, post_comments = []\<rparr>])))"
proof -
  let ?W = "\<lparr>csv_export = (\<lambda>sid. Fetched \<lparr>columns = [''Mold''], rows = []\<rparr>),
        api_calls = (\<lambda>sid n. Raised ''unused''), now = 1000,
        fromtimestamp = (\<lambda>t. t)\<rparr>"
  let ?C = "\<lparr>kv = Map.empty,
        hashes = (\<lambda>h k. if h = ''sheets'' \<and> k = ''sheet:Y'' then Some
          \<lparr>id_sheet_post = ''p0'', title = ''Earlier'', created = 50,
             shortlink = ''https://redd.it/p0'', num_comments = 0, score = 0,
             author = None, sheet_id = Some ''Y'', sheet_url = Some ''https://docs.google.com/spreadsheets/d/Y/edit'',
             sheet_dl_date = Some 60, sheet_raw = Some \<lparr>columns = [''Mold''], rows = []\<rparr>\<rparr> else None)\<rparr>"
  let ?SS = "[\<lparr>post_id = ''p1'',
        post_title = ''Discs https://docs.google.com/spreadsheets/d/X/edit'',
        post_selftext = [], post_url = ''https://reddit.com/p1'', post_created_utc = 100,
        post_shortlink = ''https://redd.it/p1'', post_num_comments = 0, post_score = 1,
        post_author = Some ''u1'', post_author_flair_text = None, post_comments = []\<rparr>,
       \<lparr>post_id = ''p2'',
        post_title = ''Discs https://docs.google.com/spreadsheets/d/X/edit'',
        post_selftext = [], post_url = ''https://reddit.com/p2'', post_created_utc = 200,
        post_shortlink = ''https://redd.it/p2'', post_num_comments = 0, post_score = 1,
        post_author = Some ''u1'', post_author_flair_text = None, post_comments = []\<rparr>,
       \<lparr>post_id = ''p3'',
        post_title = ''Discs https://docs.google.com/spreadsheets/d/Y/edit'',
        post_selftext = [], post_url = ''https://reddit.com/p3'', post_created_utc = 300,
        post_shortlink = ''https://redd.it/p3'', post_num_comments = 0, post_score = 1,
        post_author = Some ''u1'', post_author_flair_text = None, post_comments = []\<rparr>]"
  let ?q = "sheet_query ?W extract_id_from_url ?C ?SS"
  have h: "?q = (fst ?q, fst (snd ?q), snd (snd ?q))" by simp
  have e: "snd (snd ?q) = [''X'']" by code_simp
  have y: "hexists ?C ''sheets'' (''sheet:'' @ ''Y'')" by (simp add: hexists_def)
  note t = sheet_query_downloads_once[OF h]
  from t have d: "distinct (snd (snd ?q))" by (rule conjunct1)
  from t[THEN conjunct2, THEN conjunct1, rule_format, OF y]
  have n: "''Y'' \<notin> set (snd (snd ?q))" .
  from e y d n show ?thesis by (intro conjI)
qed

end
